theory Spec2Isabelle
  imports Complex_Main "HOL-Library.Multiset" "HOL-Library.Char_ord"
    "HOL-Library.List_Lexorder" "HOL-Library.Product_Lexorder"
begin

section \<open>The Wordle solver of \<^verbatim>\<open>src/main.py\<close>\<close>

text \<open>
  Words are Python strings, modelled as \<open>string\<close>. The only exception the core
  functions can raise is the \<^verbatim>\<open>IndexError\<close> of an index beyond the end of a
  word or of an empty list; a function that can raise returns \<open>error + 'a\<close>.
  Scores are Python floats, that is IEEE 754 doubles; every operation on them
  rounds as the double arithmetic does.
\<close>

datatype error = IndexError

subsection \<open>Python floats\<close>

text \<open>
  A float is modelled by the rational number it denotes. An operation computes the
  exact result and rounds it to the nearest double, a tie to the even significand
  of 53 bits. The exponent range is not bounded in the model: an overflow would
  need a list of more than \<open>2 ^ 1023\<close> words, and no operation of the program has a
  non-zero result below the normal range.
\<close>

text \<open>The number of binary digits of a positive integer.\<close>

function bit_length :: "int \<Rightarrow> int" where
  "bit_length n = (if n \<le> 0 then 0 else 1 + bit_length (n div 2))"
  by auto
termination
  by (relation "measure nat") auto

declare bit_length.simps [simp del]

definition pow2 :: "int \<Rightarrow> rat" where
  "pow2 e = (if 0 \<le> e then 2 ^ nat e else 1 / 2 ^ nat (- e))"

text \<open>For \<open>x > 0\<close>, the exponent \<open>e\<close> with \<open>2 ^ e \<le> x < 2 ^ (e + 1)\<close>.\<close>

definition floor_log2 :: "rat \<Rightarrow> int" where
  "floor_log2 x =
     (if 1 \<le> x then bit_length \<lfloor>x\<rfloor> - 1
      else
        let k = bit_length \<lfloor>1 / x\<rfloor> - 1
        in if pow2 (- k) \<le> x then - k else - k - 1)"

definition round_half_even :: "rat \<Rightarrow> int" where
  "round_half_even q =
     (let f = \<lfloor>q\<rfloor>; r = q - of_int f
      in if r < 1 / 2 then f else if 1 / 2 < r then f + 1 else if even f then f else f + 1)"

definition round_double :: "rat \<Rightarrow> rat" where
  "round_double x =
     (if x = 0 then 0
      else
        let ulp = pow2 (floor_log2 \<bar>x\<bar> - 52)
        in sgn x * of_int (round_half_even (\<bar>x\<bar> / ulp)) * ulp)"

text \<open>\<^verbatim>\<open>x + y\<close>, \<^verbatim>\<open>x - y\<close>, \<^verbatim>\<open>x * y\<close> and \<^verbatim>\<open>x / y\<close> on floats.\<close>

definition fadd :: "rat \<Rightarrow> rat \<Rightarrow> rat" where
  "fadd x y = round_double (x + y)"

definition fsub :: "rat \<Rightarrow> rat \<Rightarrow> rat" where
  "fsub x y = round_double (x - y)"

definition fmul :: "rat \<Rightarrow> rat \<Rightarrow> rat" where
  "fmul x y = round_double (x * y)"

definition fdiv :: "rat \<Rightarrow> rat \<Rightarrow> rat" where
  "fdiv x y = round_double (x / y)"

text \<open>
  An \<^verbatim>\<open>int\<close> operand of a float operation is converted to the nearest float
  first; \<^verbatim>\<open>a / b\<close> on two \<^verbatim>\<open>int\<close>s is the correctly rounded quotient.
\<close>

definition float_of_int :: "int \<Rightarrow> rat" where
  "float_of_int n = round_double (of_int n)"

definition float_of_nat :: "nat \<Rightarrow> rat" where
  "float_of_nat n = round_double (of_nat n)"

definition int_truediv :: "nat \<Rightarrow> nat \<Rightarrow> rat" where
  "int_truediv a b = round_double (of_nat a / of_nat b)"

subsection \<open>\<^verbatim>\<open>get_feedback\<close>\<close>

text \<open>
  The state of the two loops: \<^verbatim>\<open>feedback\<close>, \<^verbatim>\<open>target_chars\<close> and
  \<^verbatim>\<open>guess_chars\<close>; a consumed entry is \<^verbatim>\<open>None\<close>.
\<close>

type_synonym fb_state = "string \<times> char option list \<times> char option list"

text \<open>\<^verbatim>\<open>list.index\<close>, called only under the guard \<^verbatim>\<open>x in xs\<close>.\<close>

fun index_of :: "'a list \<Rightarrow> 'a \<Rightarrow> nat" where
  "index_of [] x = 0"
| "index_of (y # ys) x = (if y = x then 0 else Suc (index_of ys x))"

text \<open>Body of the first loop (greens) at index \<open>i\<close>.\<close>

definition mark_green :: "nat \<Rightarrow> fb_state \<Rightarrow> fb_state" where
  "mark_green i s =
     (case s of (feedback, target_chars, guess_chars) \<Rightarrow>
        if guess_chars ! i = target_chars ! i
        then (feedback[i := CHR ''G''], target_chars[i := None], guess_chars[i := None])
        else s)"

text \<open>Body of the second loop (yellows) at index \<open>i\<close>.\<close>

definition mark_yellow :: "nat \<Rightarrow> fb_state \<Rightarrow> fb_state" where
  "mark_yellow i s =
     (case s of (feedback, target_chars, guess_chars) \<Rightarrow>
        (case guess_chars ! i of
           None \<Rightarrow> s
         | Some c \<Rightarrow>
             if Some c \<in> set target_chars
             then (feedback[i := CHR ''Y''],
                   target_chars[index_of target_chars (Some c) := None], guess_chars)
             else s))"

definition first_pass :: "nat \<Rightarrow> fb_state \<Rightarrow> fb_state" where
  "first_pass n s = fold mark_green [0..<n] s"

definition second_pass :: "nat \<Rightarrow> fb_state \<Rightarrow> fb_state" where
  "second_pass n s = fold mark_yellow [0..<n] s"

text \<open>
  Both loops read \<^verbatim>\<open>guess_chars[i]\<close> and \<^verbatim>\<open>target_chars[i]\<close> for
  \<open>i\<close> in \<^verbatim>\<open>range(5)\<close>: a word shorter than five characters raises
  \<^verbatim>\<open>IndexError\<close> in the first loop.
\<close>

definition get_feedback :: "string \<Rightarrow> string \<Rightarrow> error + string" where
  "get_feedback guess target =
     (if length guess < 5 \<or> length target < 5 then Inl IndexError
      else Inr (fst (second_pass 5 (first_pass 5
             (replicate 5 CHR ''B'', map Some target, map Some guess)))))"

subsection \<open>\<^verbatim>\<open>filter_words\<close>\<close>

text \<open>The loop appends to \<^verbatim>\<open>valid_words\<close>; an exception of \<^verbatim>\<open>get_feedback\<close> ends it.\<close>

fun filter_words_loop :: "string list \<Rightarrow> string \<Rightarrow> string \<Rightarrow> string list \<Rightarrow> error + string list" where
  "filter_words_loop [] guess feedback valid_words = Inr valid_words"
| "filter_words_loop (word # words) guess feedback valid_words =
     (case get_feedback guess word of
        Inl e \<Rightarrow> Inl e
      | Inr fb \<Rightarrow>
          filter_words_loop words guess feedback
            (if fb = feedback then valid_words @ [word] else valid_words))"

definition filter_words :: "string list \<Rightarrow> string \<Rightarrow> string \<Rightarrow> error + string list" where
  "filter_words words guess feedback = filter_words_loop words guess feedback []"

subsection \<open>\<^verbatim>\<open>calculate_partitions\<close>\<close>

text \<open>
  A \<^verbatim>\<open>defaultdict(list)\<close> keeps its keys in insertion order: an association list.
  \<open>dict_append\<close> is \<^verbatim>\<open>partitions[feedback].append(word)\<close>.
\<close>

type_synonym partitions = "(string \<times> string list) list"

fun dict_append :: "partitions \<Rightarrow> string \<Rightarrow> string \<Rightarrow> partitions" where
  "dict_append [] k w = [(k, [w])]"
| "dict_append ((k', ws) # ps) k w =
     (if k' = k then (k', ws @ [w]) # ps else (k', ws) # dict_append ps k w)"

fun calculate_partitions_loop :: "string \<Rightarrow> string list \<Rightarrow> partitions \<Rightarrow> error + partitions" where
  "calculate_partitions_loop guess [] partitions = Inr partitions"
| "calculate_partitions_loop guess (word # words) partitions =
     (case get_feedback guess word of
        Inl e \<Rightarrow> Inl e
      | Inr feedback \<Rightarrow> calculate_partitions_loop guess words (dict_append partitions feedback word))"

definition calculate_partitions :: "string \<Rightarrow> string list \<Rightarrow> error + partitions" where
  "calculate_partitions guess possible_words = calculate_partitions_loop guess possible_words []"

subsection \<open>\<^verbatim>\<open>evaluate_guess\<close>\<close>

definition max_remaining_of :: "nat list \<Rightarrow> nat" where
  "max_remaining_of partition_sizes =
     (if partition_sizes \<noteq> [] then Max (set partition_sizes) else 0)"

definition avg_remaining_of :: "nat list \<Rightarrow> rat" where
  "avg_remaining_of partition_sizes =
     (if partition_sizes \<noteq> []
      then int_truediv (sum_list partition_sizes) (length partition_sizes) else 0)"

definition evaluate_guess ::
  "string \<Rightarrow> string list \<Rightarrow> string list \<Rightarrow> error + (nat \<times> rat \<times> bool \<times> rat)" where
  "evaluate_guess guess possible_words all_words =
     (case calculate_partitions guess possible_words of
        Inl e \<Rightarrow> Inl e
      | Inr partitions \<Rightarrow>
          let is_possible_answer = guess \<in> set possible_words;
              partition_sizes = map (\<lambda>p. length (snd p)) partitions;
              max_remaining = max_remaining_of partition_sizes;
              avg_remaining = avg_remaining_of partition_sizes;
              total_eliminated = fsub (float_of_nat (length possible_words)) avg_remaining
          in Inr (max_remaining, avg_remaining, is_possible_answer, total_eliminated))"

subsection \<open>Letter frequencies\<close>

text \<open>A \<^verbatim>\<open>Counter\<close> reads 0 at a missing key: a function into \<open>nat\<close>.\<close>

definition get_letter_frequencies :: "string list \<Rightarrow> char \<Rightarrow> nat" where
  "get_letter_frequencies words =
     fold (\<lambda>word letter_freq.
             fold (\<lambda>char lf. lf(char := lf char + 1)) (remdups word) letter_freq)
       words (\<lambda>_. 0)"

definition score_word_frequency :: "string \<Rightarrow> (char \<Rightarrow> nat) \<Rightarrow> nat" where
  "score_word_frequency word letter_freq = sum_list (map letter_freq (remdups word))"

text \<open>\<^verbatim>\<open>len(set(word) - known_letters - excluded_letters)\<close>\<close>

definition unexplored :: "string \<Rightarrow> char set \<Rightarrow> char set \<Rightarrow> nat" where
  "unexplored word known_letters excluded_letters =
     card (set word - known_letters - excluded_letters)"

subsection \<open>\<^verbatim>\<open>find_best_distinguishing_word\<close>\<close>

text \<open>
  The score of one evaluation candidate. The source repeats the loop of
  \<^verbatim>\<open>calculate_partitions\<close> inline.
\<close>

definition distinguishing_score ::
  "string \<Rightarrow> string list \<Rightarrow> char set \<Rightarrow> char set \<Rightarrow> error + rat" where
  "distinguishing_score word possible_words known_letters excluded_letters =
     (case calculate_partitions word possible_words of
        Inl e \<Rightarrow> Inl e
      | Inr partitions \<Rightarrow>
          let partition_sizes = map (\<lambda>p. length (snd p)) partitions;
              max_remaining = max_remaining_of partition_sizes;
              avg_remaining = avg_remaining_of partition_sizes;
              exploration_bonus =
                fmul (float_of_nat (unexplored word known_letters excluded_letters))
                  (round_double (1 / 10));
              excluded_penalty =
                fmul (float_of_nat (card (set word \<inter> excluded_letters))) (1 / 2)
          in Inr (fadd (fsub (fadd (float_of_nat max_remaining) (fdiv avg_remaining 1000))
                          exploration_bonus)
                    excluded_penalty))"

text \<open>
  \<^verbatim>\<open>best_score\<close> starts at \<^verbatim>\<open>float('inf')\<close>, here \<open>None\<close>;
  \<open>below score best_score\<close> is \<^verbatim>\<open>score < best_score\<close>.
\<close>

definition below :: "'a::linorder \<Rightarrow> 'a option \<Rightarrow> bool" where
  "below score best_score = (case best_score of None \<Rightarrow> True | Some b \<Rightarrow> score < b)"

fun distinguishing_loop ::
  "string list \<Rightarrow> string list \<Rightarrow> char set \<Rightarrow> char set \<Rightarrow> string option \<times> rat option
     \<Rightarrow> error + (string option \<times> rat option)" where
  "distinguishing_loop [] possible_words known_letters excluded_letters best = Inr best"
| "distinguishing_loop (word # rest) possible_words known_letters excluded_letters best =
     (case distinguishing_score word possible_words known_letters excluded_letters of
        Inl e \<Rightarrow> Inl e
      | Inr score \<Rightarrow>
          distinguishing_loop rest possible_words known_letters excluded_letters
            (if below score (snd best) then (Some word, Some score) else best))"

definition evaluation_candidates :: "string list \<Rightarrow> string list \<Rightarrow> string list" where
  "evaluation_candidates possible_words all_words =
     filter (\<lambda>word. word \<notin> set possible_words) (take 500 all_words) @
     (if length possible_words \<le> 3 then possible_words else [])"

text \<open>
  \<^verbatim>\<open>if best_word and best_info\<close>: a string is true when it is not empty, and
  \<^verbatim>\<open>best_info\<close> is a non-empty dict whenever \<^verbatim>\<open>best_word\<close> is set.
\<close>

definition find_best_distinguishing_word ::
  "string list \<Rightarrow> string list \<Rightarrow> char set \<Rightarrow> char set \<Rightarrow> error + string option" where
  "find_best_distinguishing_word possible_words all_words known_letters excluded_letters =
     (if length possible_words \<le> 1
      then Inr (case possible_words of [] \<Rightarrow> None | w # _ \<Rightarrow> Some w)
      else
        (case distinguishing_loop (evaluation_candidates possible_words all_words)
                possible_words known_letters excluded_letters (None, None) of
           Inl e \<Rightarrow> Inl e
         | Inr (best_word, best_score) \<Rightarrow>
             (case best_word of
                Some w \<Rightarrow> if w \<noteq> [] then Inr (Some w) else Inr (Some (possible_words ! 0))
              | None \<Rightarrow> Inr (Some (possible_words ! 0)))))"

subsection \<open>The branch for two remaining words\<close>

fun two_words_loop ::
  "string list \<Rightarrow> string list \<Rightarrow> char set \<Rightarrow> char set \<Rightarrow> char set
     \<Rightarrow> string option \<times> int option \<Rightarrow> error + (string option \<times> int option)" where
  "two_words_loop [] possible_words known_letters excluded_letters diff_letters best = Inr best"
| "two_words_loop (word # rest) possible_words known_letters excluded_letters diff_letters best =
     (if word \<notin> set possible_words
      then
        (case get_feedback word (possible_words ! 0) of
           Inl e \<Rightarrow> Inl e
         | Inr feedback1 \<Rightarrow>
             (case get_feedback word (possible_words ! 1) of
                Inl e \<Rightarrow> Inl e
              | Inr feedback2 \<Rightarrow>
                  if feedback1 \<noteq> feedback2
                  then
                    (let new_letter_bonus = int (unexplored word known_letters excluded_letters);
                         tests_diff_letters = int (card (set word \<inter> diff_letters));
                         score = - new_letter_bonus - tests_diff_letters
                     in two_words_loop rest possible_words known_letters excluded_letters diff_letters
                          (if below score (snd best) then (Some word, Some score) else best))
                  else two_words_loop rest possible_words known_letters excluded_letters
                         diff_letters best))
      else two_words_loop rest possible_words known_letters excluded_letters diff_letters best)"

text \<open>Lines 210 to 258: \<^verbatim>\<open>word1[i]\<close> and \<^verbatim>\<open>word2[i]\<close> are read for \<open>i\<close> in \<^verbatim>\<open>range(5)\<close>.\<close>

definition two_words_branch ::
  "string list \<Rightarrow> string list \<Rightarrow> char set \<Rightarrow> char set \<Rightarrow> error + string option" where
  "two_words_branch possible_words all_words known_letters excluded_letters =
     (let word1 = possible_words ! 0; word2 = possible_words ! 1 in
      if length word1 < 5 \<or> length word2 < 5 then Inl IndexError
      else
        let diff_positions = filter (\<lambda>i. word1 ! i \<noteq> word2 ! i) [0..<5];
            diff_letters = set (map (\<lambda>i. word1 ! i) diff_positions) \<union>
                           set (map (\<lambda>i. word2 ! i) diff_positions)
        in
          if diff_positions \<noteq> []
          then
            (case two_words_loop (take 300 all_words) possible_words known_letters
                    excluded_letters diff_letters (None, None) of
               Inl e \<Rightarrow> Inl e
             | Inr (best_distinguisher, best_score) \<Rightarrow>
                 (case best_distinguisher of
                    Some w \<Rightarrow> if w \<noteq> [] then Inr (Some w) else Inr (Some (possible_words ! 0))
                  | None \<Rightarrow> Inr (Some (possible_words ! 0))))
          else Inr (Some (possible_words ! 0)))"

subsection \<open>The evaluation sets of the general case\<close>

text \<open>More than \<^verbatim>\<open>ELIMINATION_THRESHOLD\<close> (15) words remain.\<close>

definition elimination_set ::
  "string list \<Rightarrow> string list \<Rightarrow> char set \<Rightarrow> char set \<Rightarrow> string list" where
  "elimination_set possible_words all_words known_letters excluded_letters =
     (let letter_freq = get_letter_frequencies possible_words;
          evaluation_set =
            filter (\<lambda>word. word \<notin> set possible_words \<and>
                      \<not> (set word \<inter> excluded_letters \<noteq> {}) \<and>
                      unexplored word known_letters excluded_letters \<ge> 3)
              (take 800 all_words);
          evaluation_set =
            (if length evaluation_set < 50
             then evaluation_set @
                  filter (\<lambda>word. word \<notin> set possible_words \<and>
                            score_word_frequency word letter_freq > 0)
                    (take 800 all_words)
             else evaluation_set)
      in take 150 evaluation_set)"

text \<open>
  More than \<^verbatim>\<open>MEDIUM_SET_THRESHOLD\<close> (6) words remain. The pairs are sorted with
  \<^verbatim>\<open>reverse=True\<close>: pairs that compare equal are equal, so the descending list is
  the reversed ascending one.
\<close>

definition medium_set ::
  "string list \<Rightarrow> string list \<Rightarrow> char set \<Rightarrow> char set \<Rightarrow> string list" where
  "medium_set possible_words all_words known_letters excluded_letters =
     (let elimination_words =
            map (\<lambda>word. (unexplored word known_letters excluded_letters, word))
              (filter (\<lambda>word. word \<notin> set possible_words \<and>
                         unexplored word known_letters excluded_letters \<ge> 2)
                 (take 600 all_words))
      in map snd (take 100 (rev (sort elimination_words))))"

subsection \<open>Scoring in the general case\<close>

type_synonym candidate = "rat \<times> string \<times> nat \<times> rat \<times> bool \<times> nat \<times> nat"

text \<open>The body of the scoring loop, lines 311 to 342.\<close>

definition score_candidate ::
  "string \<Rightarrow> string list \<Rightarrow> string list \<Rightarrow> int \<Rightarrow> char set \<Rightarrow> char set \<Rightarrow> error + candidate" where
  "score_candidate word possible_words all_words turn known_letters excluded_letters =
     (case evaluate_guess word possible_words all_words of
        Inl e \<Rightarrow> Inl e
      | Inr (max_remaining, avg_remaining, is_possible_answer, total_eliminated) \<Rightarrow>
          let words_remaining = length possible_words;
              unexplored_letters = unexplored word known_letters excluded_letters;
              known_letters_in_word = card (set word \<inter> known_letters);
              base_score = float_of_nat max_remaining;
              tie_breaker = fdiv avg_remaining 1000;
              exploration_bonus =
                (if \<not> is_possible_answer \<and> words_remaining > 6
                 then fadd (fmul (float_of_int (- int unexplored_letters)) (1 / 2))
                        (fmul (float_of_nat known_letters_in_word) (round_double (3 / 10)))
                 else 0);
              answer_bonus =
                (if is_possible_answer
                 then (if words_remaining \<le> 2 \<or> turn \<ge> 5 then - 1 else 2)
                 else (if words_remaining > 6 then - (1 / 2) else 0));
              final_score = fadd (fadd (fadd base_score tie_breaker) answer_bonus)
                              exploration_bonus
          in Inr (final_score, word, max_remaining, avg_remaining, is_possible_answer,
                  unexplored_letters, known_letters_in_word))"

fun score_loop ::
  "string list \<Rightarrow> string list \<Rightarrow> string list \<Rightarrow> int \<Rightarrow> char set \<Rightarrow> char set \<Rightarrow> candidate list
     \<Rightarrow> error + candidate list" where
  "score_loop [] possible_words all_words turn known_letters excluded_letters candidates =
     Inr candidates"
| "score_loop (word # rest) possible_words all_words turn known_letters excluded_letters candidates =
     (case score_candidate word possible_words all_words turn known_letters excluded_letters of
        Inl e \<Rightarrow> Inl e
      | Inr c \<Rightarrow>
          score_loop rest possible_words all_words turn known_letters excluded_letters
            (candidates @ [c]))"

text \<open>
  Lines 310 to 363: score every word of the evaluation set, sort the tuples
  (Python compares tuples lexicographically), return the word of the first one;
  \<^verbatim>\<open>candidates[0]\<close> raises \<^verbatim>\<open>IndexError\<close> on the empty list.
\<close>

definition select_scored ::
  "string list \<Rightarrow> string list \<Rightarrow> string list \<Rightarrow> int \<Rightarrow> char set \<Rightarrow> char set \<Rightarrow> error + string option" where
  "select_scored evaluation_set possible_words all_words turn known_letters excluded_letters =
     (case score_loop evaluation_set possible_words all_words turn known_letters
             excluded_letters [] of
        Inl e \<Rightarrow> Inl e
      | Inr candidates \<Rightarrow>
          (case sort candidates of
             [] \<Rightarrow> Inl IndexError
           | best # _ \<Rightarrow> Inr (Some (fst (snd best)))))"

subsection \<open>\<^verbatim>\<open>choose_best_word\<close>\<close>

definition proven_starters :: "string list" where
  "proven_starters = [''COURT'']"

text \<open>
  \<^verbatim>\<open>known_letters\<close> and \<^verbatim>\<open>excluded_letters\<close> default to the empty set. The
  branches are tried in the order of the source.
\<close>

definition choose_best_word ::
  "string list \<Rightarrow> string list \<Rightarrow> int \<Rightarrow> char set \<Rightarrow> char set \<Rightarrow> error + string option" where
  "choose_best_word possible_words all_words turn known_letters excluded_letters =
     (if length possible_words = 1 then Inr (Some (possible_words ! 0))
      else
        let words_remaining = length possible_words in
        if turn = 1
        then
          (case List.find (\<lambda>starter. starter \<in> set all_words) proven_starters of
             Some best_starter \<Rightarrow>
               if best_starter \<noteq> [] then Inr (Some best_starter) else Inr (Some ''ADIEU'')
           | None \<Rightarrow> Inr (Some ''ADIEU''))
        else if words_remaining \<le> 10
        then find_best_distinguishing_word possible_words all_words known_letters excluded_letters
        else if words_remaining = 2
        then two_words_branch possible_words all_words known_letters excluded_letters
        else if words_remaining > 15
        then select_scored
               (elimination_set possible_words all_words known_letters excluded_letters)
               possible_words all_words turn known_letters excluded_letters
        else if words_remaining > 6
        then select_scored
               (medium_set possible_words all_words known_letters excluded_letters)
               possible_words all_words turn known_letters excluded_letters
        else find_best_distinguishing_word possible_words all_words known_letters
               excluded_letters)"

subsection \<open>The invariant of the partition loop\<close>

text \<open>The invariant of the loop of \<^verbatim>\<open>calculate_partitions\<close> after the words \<open>seen\<close>.\<close>

definition partitions_of :: "string \<Rightarrow> string list \<Rightarrow> partitions \<Rightarrow> bool" where
  "partitions_of g seen ps \<longleftrightarrow>
     distinct (map fst ps) \<and>
     mset (concat (map snd ps)) = mset seen \<and>
     (\<forall>k. map_of ps k =
        (if filter (\<lambda>w. get_feedback g w = Inr k) seen = [] then None
         else Some (filter (\<lambda>w. get_feedback g w = Inr k) seen)))"

subsection \<open>Names for parts of the general case\<close>

text \<open>The evaluation set that \<^verbatim>\<open>choose_best_word\<close> builds when more than 10 words remain.\<close>

definition evaluation_set ::
  "string list \<Rightarrow> string list \<Rightarrow> char set \<Rightarrow> char set \<Rightarrow> string list" where
  "evaluation_set possible_words all_words known_letters excluded_letters =
     (if 15 < length possible_words
      then elimination_set possible_words all_words known_letters excluded_letters
      else medium_set possible_words all_words known_letters excluded_letters)"

text \<open>The first component, \<^verbatim>\<open>final_score\<close>, of the tuple that the scoring loop appends.\<close>

definition final_score ::
  "string \<Rightarrow> string list \<Rightarrow> string list \<Rightarrow> int \<Rightarrow> char set \<Rightarrow> char set \<Rightarrow> error + rat" where
  "final_score word possible_words all_words turn known_letters excluded_letters =
     (case score_candidate word possible_words all_words turn known_letters excluded_letters of
        Inl e \<Rightarrow> Inl e
      | Inr c \<Rightarrow> Inr (fst c))"

section \<open>Evaluating float operations\<close>

lemma floor_rat_numeral_div [simp]:
  "\<lfloor>(numeral a :: rat) / numeral b\<rfloor> = numeral a div numeral b"
  using floor_divide_of_int_eq [of "numeral a" "numeral b", where ?'a = rat] by simp

lemma floor_rat_one_div [simp]:
  "\<lfloor>(1 :: rat) / numeral b\<rfloor> = 1 div numeral b"
  using floor_divide_of_int_eq [of 1 "numeral b", where ?'a = rat] by simp

lemmas float_eval =
  round_double_def floor_log2_def pow2_def round_half_even_def bit_length.simps
  fadd_def fsub_def fmul_def fdiv_def float_of_int_def float_of_nat_def int_truediv_def Let_def

section \<open>Feedback: the two passes\<close>

lemma count_list_index_of_update:
  "x \<in> set xs \<Longrightarrow> y \<noteq> x \<Longrightarrow> z \<noteq> y \<Longrightarrow>
   count_list (xs[index_of xs x := y]) z =
     (if z = x then count_list xs x - 1 else count_list xs z)"
  by (induction xs) auto

lemma length_index_of_update [simp]: "length (xs[index_of xs x := y]) = length xs"
  by simp

lemma first_pass_closed:
  assumes "length g = n" "length t = n" "k \<le> n"
  shows "first_pass k (replicate n CHR ''B'', map Some t, map Some g) =
     (map (\<lambda>j. if j < k \<and> g ! j = t ! j then CHR ''G'' else CHR ''B'') [0..<n],
      map (\<lambda>j. if j < k \<and> g ! j = t ! j then None else Some (t ! j)) [0..<n],
      map (\<lambda>j. if j < k \<and> g ! j = t ! j then None else Some (g ! j)) [0..<n])"
  using assms(3)
proof (induction k)
  case 0
  show ?case using assms(1,2)
    by (simp add: first_pass_def list_eq_iff_nth_eq)
next
  case (Suc k)
  then have IH: "first_pass k (replicate n CHR ''B'', map Some t, map Some g) =
     (map (\<lambda>j. if j < k \<and> g ! j = t ! j then CHR ''G'' else CHR ''B'') [0..<n],
      map (\<lambda>j. if j < k \<and> g ! j = t ! j then None else Some (t ! j)) [0..<n],
      map (\<lambda>j. if j < k \<and> g ! j = t ! j then None else Some (g ! j)) [0..<n])"
    and kn: "k < n" by simp_all
  have "first_pass (Suc k) (replicate n CHR ''B'', map Some t, map Some g) =
      mark_green k (first_pass k (replicate n CHR ''B'', map Some t, map Some g))"
    by (simp add: first_pass_def)
  also have "\<dots> = (map (\<lambda>j. if j < Suc k \<and> g ! j = t ! j then CHR ''G'' else CHR ''B'') [0..<n],
      map (\<lambda>j. if j < Suc k \<and> g ! j = t ! j then None else Some (t ! j)) [0..<n],
      map (\<lambda>j. if j < Suc k \<and> g ! j = t ! j then None else Some (g ! j)) [0..<n])"
    unfolding IH using kn
    by (auto simp: mark_green_def list_eq_iff_nth_eq nth_list_update less_Suc_eq)
  finally show ?case .
qed

lemma second_pass_inv:
  assumes len: "length fb1 = n" "length tc1 = n" "length gc1 = n"
    and noY: "\<forall>j<n. fb1 ! j \<noteq> CHR ''Y''"
    and kn: "k \<le> n"
  shows "\<exists>fb tc. second_pass k (fb1, tc1, gc1) = (fb, tc, gc1) \<and>
     length fb = n \<and> length tc = n \<and>
     (\<forall>j<n. k \<le> j \<longrightarrow> fb ! j = fb1 ! j) \<and>
     (\<forall>j<k. fb ! j = fb1 ! j \<or> (fb ! j = CHR ''Y'' \<and> gc1 ! j \<noteq> None)) \<and>
     count_list tc (Some L) +
       length (filter (\<lambda>j. gc1 ! j = Some L \<and> fb ! j = CHR ''Y'') [0..<k]) =
       count_list tc1 (Some L) \<and>
     length (filter (\<lambda>j. gc1 ! j = Some L \<and> fb ! j = CHR ''Y'') [0..<k]) =
       min (length (filter (\<lambda>j. gc1 ! j = Some L) [0..<k])) (count_list tc1 (Some L))"
  using kn
proof (induction k)
  case 0
  show ?case using len by (simp add: second_pass_def)
next
  case (Suc k)
  then have kn: "k < n" by simp
  from Suc obtain fb tc where
    st: "second_pass k (fb1, tc1, gc1) = (fb, tc, gc1)"
    and lfb: "length fb = n" and ltc: "length tc = n"
    and later: "\<forall>j<n. k \<le> j \<longrightarrow> fb ! j = fb1 ! j"
    and earlier: "\<forall>j<k. fb ! j = fb1 ! j \<or> (fb ! j = CHR ''Y'' \<and> gc1 ! j \<noteq> None)"
    and cnt: "count_list tc (Some L) +
       length (filter (\<lambda>j. gc1 ! j = Some L \<and> fb ! j = CHR ''Y'') [0..<k]) =
       count_list tc1 (Some L)"
    and ymin: "length (filter (\<lambda>j. gc1 ! j = Some L \<and> fb ! j = CHR ''Y'') [0..<k]) =
       min (length (filter (\<lambda>j. gc1 ! j = Some L) [0..<k])) (count_list tc1 (Some L))"
    by auto
  have step: "second_pass (Suc k) (fb1, tc1, gc1) = mark_yellow k (fb, tc, gc1)"
    using st by (simp add: second_pass_def)
  have fbk1: "fb ! k = fb1 ! k" using later kn by simp
  have fbk: "fb ! k \<noteq> CHR ''Y''" using later noY kn by simp
  show ?case
  proof (cases "\<exists>c. gc1 ! k = Some c \<and> Some c \<in> set tc")
    case False
    then have same: "mark_yellow k (fb, tc, gc1) = (fb, tc, gc1)"
      by (auto simp: mark_yellow_def split: option.splits)
    have nomore: "gc1 ! k = Some L \<Longrightarrow> count_list tc (Some L) = 0"
      using False by (simp add: count_list_0_iff)
    show ?thesis
      apply (rule exI [of _ fb], rule exI [of _ tc])
      unfolding step same
      using lfb ltc later earlier cnt ymin fbk fbk1 nomore
      by (auto simp: less_Suc_eq)
  next
    case True
    then obtain c where c: "gc1 ! k = Some c" "Some c \<in> set tc" by auto
    let ?fb = "fb[k := CHR ''Y'']"
    let ?tc = "tc[index_of tc (Some c) := None]"
    have upd: "mark_yellow k (fb, tc, gc1) = (?fb, ?tc, gc1)"
      using c by (simp add: mark_yellow_def)
    have filt: "filter (\<lambda>j. gc1 ! j = Some L \<and> ?fb ! j = CHR ''Y'') [0..<k] =
        filter (\<lambda>j. gc1 ! j = Some L \<and> fb ! j = CHR ''Y'') [0..<k]"
      by (rule filter_cong) auto
    have cl: "count_list ?tc (Some L) =
        (if L = c then count_list tc (Some c) - 1 else count_list tc (Some L))"
      using c(2) by (simp add: count_list_index_of_update)
    have pos: "0 < count_list tc (Some c)"
      using c(2) by (metis count_list_0_iff gr0I)
    have fbk': "?fb ! k = CHR ''Y''" using kn lfb by simp
    have Y': "length (filter (\<lambda>j. gc1 ! j = Some L \<and> ?fb ! j = CHR ''Y'') [0..<Suc k]) =
        length (filter (\<lambda>j. gc1 ! j = Some L \<and> fb ! j = CHR ''Y'') [0..<k]) +
        (if L = c then 1 else 0)"
      using c(1) fbk' by (simp add: filt)
    have A': "length (filter (\<lambda>j. gc1 ! j = Some L) [0..<Suc k]) =
        length (filter (\<lambda>j. gc1 ! j = Some L) [0..<k]) + (if L = c then 1 else 0)"
      using c(1) by simp
    have l1: "\<forall>j<n. Suc k \<le> j \<longrightarrow> ?fb ! j = fb1 ! j"
      using later by (simp add: nth_list_update)
    have l2: "\<forall>j<Suc k. ?fb ! j = fb1 ! j \<or> (?fb ! j = CHR ''Y'' \<and> gc1 ! j \<noteq> None)"
      using earlier c(1) kn lfb by (auto simp: nth_list_update less_Suc_eq)
    have l3: "count_list ?tc (Some L) +
       length (filter (\<lambda>j. gc1 ! j = Some L \<and> ?fb ! j = CHR ''Y'') [0..<Suc k]) =
       count_list tc1 (Some L)"
      unfolding Y' cl using cnt pos by auto
    have l4: "length (filter (\<lambda>j. gc1 ! j = Some L \<and> ?fb ! j = CHR ''Y'') [0..<Suc k]) =
       min (length (filter (\<lambda>j. gc1 ! j = Some L) [0..<Suc k])) (count_list tc1 (Some L))"
      unfolding Y' A' using cnt ymin pos by auto
    show ?thesis
      apply (rule exI [of _ ?fb], rule exI [of _ ?tc])
      unfolding step upd
      using lfb ltc l1 l2 l3 l4 by simp
  qed
qed

lemma count_list_map_upt:
  "count_list (map f [0..<n]) y = length (filter (\<lambda>j. f j = y) [0..<n])"
  by (induction n) auto

lemma count_list_nth:
  "count_list xs x = length (filter (\<lambda>j. xs ! j = x) [0..<length xs])"
proof -
  have "count_list (map (\<lambda>j. xs ! j) [0..<length xs]) x =
      length (filter (\<lambda>j. xs ! j = x) [0..<length xs])"
    by (rule count_list_map_upt)
  then show ?thesis by (simp add: map_nth)
qed

lemma length_filter_split:
  "length (filter P xs) =
     length (filter (\<lambda>x. P x \<and> Q x) xs) + length (filter (\<lambda>x. P x \<and> \<not> Q x) xs)"
  by (induction xs) auto

lemma length_filter_disj:
  "\<forall>x\<in>set xs. \<not> (P x \<and> Q x) \<Longrightarrow>
   length (filter (\<lambda>x. P x \<or> Q x) xs) = length (filter P xs) + length (filter Q xs)"
  by (induction xs) auto

lemma feedback_passes:
  assumes lg: "length g = n" and lt: "length t = n"
  shows "\<exists>fb. fst (second_pass n (first_pass n (replicate n CHR ''B'', map Some t, map Some g))) = fb \<and>
     length fb = n \<and>
     (\<forall>j<n. g ! j = t ! j \<longrightarrow> fb ! j = CHR ''G'') \<and>
     length (filter (\<lambda>i. g ! i = L \<and> (fb ! i = CHR ''G'' \<or> fb ! i = CHR ''Y'')) [0..<n]) =
       min (count_list g L) (count_list t L)"
proof -
  define fb1 where "fb1 = map (\<lambda>j. if j < n \<and> g ! j = t ! j then CHR ''G'' else CHR ''B'') [0..<n]"
  define tc1 where "tc1 = map (\<lambda>j. if j < n \<and> g ! j = t ! j then None else Some (t ! j)) [0..<n]"
  define gc1 where "gc1 = map (\<lambda>j. if j < n \<and> g ! j = t ! j then None else Some (g ! j)) [0..<n]"
  have p1: "first_pass n (replicate n CHR ''B'', map Some t, map Some g) = (fb1, tc1, gc1)"
    unfolding fb1_def tc1_def gc1_def using first_pass_closed [OF lg lt le_refl] .
  have lens: "length fb1 = n" "length tc1 = n" "length gc1 = n"
    by (simp_all add: fb1_def tc1_def gc1_def)
  have fb1_nth: "\<And>j. j < n \<Longrightarrow> fb1 ! j = (if g ! j = t ! j then CHR ''G'' else CHR ''B'')"
    by (simp add: fb1_def)
  have gc1_nth: "\<And>j. j < n \<Longrightarrow> gc1 ! j = (if g ! j = t ! j then None else Some (g ! j))"
    by (simp add: gc1_def)
  have noY: "\<forall>j<n. fb1 ! j \<noteq> CHR ''Y''"
    by (simp add: fb1_nth)
  from second_pass_inv [OF lens noY le_refl, of L] obtain fb tc where
    p2: "second_pass n (fb1, tc1, gc1) = (fb, tc, gc1)"
    and lfb: "length fb = n"
    and marks: "\<forall>j<n. fb ! j = fb1 ! j \<or> (fb ! j = CHR ''Y'' \<and> gc1 ! j \<noteq> None)"
    and ymin: "length (filter (\<lambda>j. gc1 ! j = Some L \<and> fb ! j = CHR ''Y'') [0..<n]) =
       min (length (filter (\<lambda>j. gc1 ! j = Some L) [0..<n])) (count_list tc1 (Some L))"
    by blast
  have mk: "\<And>j. j < n \<Longrightarrow>
      (g ! j = t ! j \<and> fb ! j = CHR ''G'') \<or>
      (g ! j \<noteq> t ! j \<and> (fb ! j = CHR ''B'' \<or> fb ! j = CHR ''Y''))"
  proof -
    fix j assume j: "j < n"
    from marks j have "fb ! j = fb1 ! j \<or> (fb ! j = CHR ''Y'' \<and> gc1 ! j \<noteq> None)" by blast
    then show "(g ! j = t ! j \<and> fb ! j = CHR ''G'') \<or>
      (g ! j \<noteq> t ! j \<and> (fb ! j = CHR ''B'' \<or> fb ! j = CHR ''Y''))"
      using fb1_nth [OF j] gc1_nth [OF j] by (cases "g ! j = t ! j") simp_all
  qed
  have green: "\<forall>j<n. g ! j = t ! j \<longrightarrow> fb ! j = CHR ''G''"
    using mk by blast
  define m where "m = length (filter (\<lambda>j. g ! j = L \<and> g ! j = t ! j) [0..<n])"
  define a where "a = length (filter (\<lambda>j. g ! j = L \<and> g ! j \<noteq> t ! j) [0..<n])"
  define b where "b = length (filter (\<lambda>j. t ! j = L \<and> g ! j \<noteq> t ! j) [0..<n])"
  define y where "y = length (filter (\<lambda>j. gc1 ! j = Some L \<and> fb ! j = CHR ''Y'') [0..<n])"
  have "filter (\<lambda>j. gc1 ! j = Some L) [0..<n] =
      filter (\<lambda>j. g ! j = L \<and> g ! j \<noteq> t ! j) [0..<n]"
    by (rule filter_cong) (simp_all add: gc1_nth)
  then have A: "length (filter (\<lambda>j. gc1 ! j = Some L) [0..<n]) = a"
    by (simp add: a_def)
  have "filter (\<lambda>j. (if j < n \<and> g ! j = t ! j then None else Some (t ! j)) = Some L) [0..<n] =
      filter (\<lambda>j. t ! j = L \<and> g ! j \<noteq> t ! j) [0..<n]"
    by (rule filter_cong) auto
  then have B: "count_list tc1 (Some L) = b"
    by (simp add: tc1_def count_list_map_upt b_def)
  have cg: "count_list g L = m + a"
    unfolding m_def a_def count_list_nth lg
    by (rule length_filter_split)
  have "count_list t L =
      length (filter (\<lambda>j. t ! j = L \<and> g ! j = t ! j) [0..<n]) + b"
    unfolding b_def count_list_nth lt
    by (rule length_filter_split)
  moreover have "filter (\<lambda>j. t ! j = L \<and> g ! j = t ! j) [0..<n] =
      filter (\<lambda>j. g ! j = L \<and> g ! j = t ! j) [0..<n]"
    by (rule filter_cong) auto
  ultimately have ct: "count_list t L = m + b"
    by (simp add: m_def)
  have ym: "y = min a b"
    using ymin by (simp only: y_def A B)
  have "filter (\<lambda>i. g ! i = L \<and> (fb ! i = CHR ''G'' \<or> fb ! i = CHR ''Y'')) [0..<n] =
      filter (\<lambda>j. (g ! j = L \<and> g ! j = t ! j) \<or> (gc1 ! j = Some L \<and> fb ! j = CHR ''Y'')) [0..<n]"
  proof (rule filter_cong)
    fix j assume "j \<in> set [0..<n]"
    then have j: "j < n" by simp
    show "(g ! j = L \<and> (fb ! j = CHR ''G'' \<or> fb ! j = CHR ''Y'')) =
          ((g ! j = L \<and> g ! j = t ! j) \<or> (gc1 ! j = Some L \<and> fb ! j = CHR ''Y''))"
      using mk [OF j] gc1_nth [OF j] by (cases "g ! j = t ! j") auto
  qed simp
  moreover have "length (filter (\<lambda>j. (g ! j = L \<and> g ! j = t ! j) \<or>
        (gc1 ! j = Some L \<and> fb ! j = CHR ''Y'')) [0..<n]) = m + y"
    unfolding m_def y_def
  proof (rule length_filter_disj, rule ballI)
    fix j assume "j \<in> set [0..<n]"
    then have j: "j < n" by simp
    show "\<not> ((g ! j = L \<and> g ! j = t ! j) \<and> (gc1 ! j = Some L \<and> fb ! j = CHR ''Y''))"
      using gc1_nth [OF j] by auto
  qed
  ultimately have "length (filter (\<lambda>i. g ! i = L \<and> (fb ! i = CHR ''G'' \<or> fb ! i = CHR ''Y'')) [0..<n]) =
      min (count_list g L) (count_list t L)"
    by (simp add: ym cg ct)
  then show ?thesis
    using p1 p2 lfb green by simp
qed

section \<open>Claims about the feedback\<close>

text \<open>
  C3. For five-letter words \<open>g\<close> and \<open>t\<close> and a letter \<open>L\<close>,
  \<^verbatim>\<open>get_feedback(g, t)\<close> returns a pattern of five marks in which the positions
  of \<open>g\<close> that hold \<open>L\<close> and are marked Green or Yellow number exactly the
  minimum of the occurrences of \<open>L\<close> in \<open>g\<close> and in \<open>t\<close>; and
  \<^verbatim>\<open>get_feedback(t, t)\<close> is \<^verbatim>\<open>GGGGG\<close>.
\<close>

theorem get_feedback_marks:
  assumes "length g = 5" and "length t = 5"
  shows "(\<exists>fb. get_feedback g t = Inr fb \<and> length fb = 5 \<and>
      length (filter (\<lambda>i. g ! i = L \<and> (fb ! i = CHR ''G'' \<or> fb ! i = CHR ''Y'')) [0..<5]) =
        min (count_list g L) (count_list t L)) \<and>
    get_feedback t t = Inr ''GGGGG''"
proof -
  from feedback_passes [OF assms, of L] obtain fb where
    fb: "fst (second_pass 5 (first_pass 5 (replicate 5 CHR ''B'', map Some t, map Some g))) = fb"
    and l: "length fb = 5"
    and c: "length (filter (\<lambda>i. g ! i = L \<and> (fb ! i = CHR ''G'' \<or> fb ! i = CHR ''Y'')) [0..<5]) =
        min (count_list g L) (count_list t L)"
    by blast
  have gf: "get_feedback g t = Inr fb"
    unfolding get_feedback_def using assms fb by simp
  from feedback_passes [OF assms(2) assms(2), of L] obtain fb' where
    fb': "fst (second_pass 5 (first_pass 5 (replicate 5 CHR ''B'', map Some t, map Some t))) = fb'"
    and l': "length fb' = 5" and g': "\<forall>j<5. t ! j = t ! j \<longrightarrow> fb' ! j = CHR ''G''"
    by blast
  have "fb' = replicate 5 CHR ''G''"
    by (rule nth_equalityI) (use l' g' in simp_all)
  also have "\<dots> = ''GGGGG''"
    by (simp add: eval_nat_numeral)
  finally have "get_feedback t t = Inr ''GGGGG''"
    unfolding get_feedback_def using assms(2) fb' by simp
  with gf l c show ?thesis by blast
qed

theorem get_feedback_marks_witness:
  "(\<exists>fb. get_feedback ''SPEED'' ''ERASE'' = Inr fb \<and> length fb = 5 \<and>
      length (filter (\<lambda>i. ''SPEED'' ! i = CHR ''E'' \<and> (fb ! i = CHR ''G'' \<or> fb ! i = CHR ''Y'')) [0..<5]) =
        min (count_list ''SPEED'' CHR ''E'') (count_list ''ERASE'' CHR ''E'')) \<and>
    get_feedback ''ERASE'' ''ERASE'' = Inr ''GGGGG''"
proof -
  have h1: "length ''SPEED'' = 5" by simp
  have h2: "length ''ERASE'' = 5" by simp
  show ?thesis by (rule get_feedback_marks [OF h1 h2])
qed

section \<open>Claims about the candidate filter\<close>

lemma get_feedback_Inr:
  "5 \<le> length g \<Longrightarrow> 5 \<le> length t \<Longrightarrow> \<exists>fb. get_feedback g t = Inr fb"
  by (simp add: get_feedback_def)

lemma get_feedback_projr:
  "5 \<le> length g \<Longrightarrow> 5 \<le> length t \<Longrightarrow> get_feedback g t = Inr (projr (get_feedback g t))"
  by (simp add: get_feedback_def)

lemma filter_words_loop_eq:
  assumes "5 \<le> length guess" and "\<forall>w\<in>set words. 5 \<le> length w"
  shows "filter_words_loop words guess feedback acc =
     Inr (acc @ filter (\<lambda>c. get_feedback guess c = Inr feedback) words)"
  using assms(2)
proof (induction words arbitrary: acc)
  case Nil
  show ?case by simp
next
  case (Cons w words)
  from Cons.prems have "5 \<le> length w" by simp
  from get_feedback_Inr [OF assms(1) this] obtain fb where fb: "get_feedback guess w = Inr fb"
    by blast
  from Cons.prems have "\<forall>w\<in>set words. 5 \<le> length w" by simp
  from Cons.IH [OF this] show ?case
    by (simp add: fb)
qed

text \<open>
  C9. When the guess and every candidate have at least five letters (no
  \<^verbatim>\<open>IndexError\<close>), \<^verbatim>\<open>filter_words\<close> returns exactly the candidates \<open>c\<close>
  with \<^verbatim>\<open>get_feedback(guess, c) == feedback\<close>, in their order; the result is
  never longer than the input.
\<close>

theorem filter_words_exact:
  assumes "5 \<le> length guess" and "\<forall>w\<in>set words. 5 \<le> length w"
  shows "filter_words words guess feedback =
       Inr (filter (\<lambda>c. get_feedback guess c = Inr feedback) words) \<and>
     length (filter (\<lambda>c. get_feedback guess c = Inr feedback) words) \<le> length words"
  using filter_words_loop_eq [OF assms, of feedback "[]"]
  by (simp add: filter_words_def)

theorem filter_words_exact_witness:
  "filter_words [''ERASE'', ''SPEED'', ''CRANE'', ''ABBEY'', ''EERIE''] ''SPEED'' ''BBYBB'' =
       Inr (filter (\<lambda>c. get_feedback ''SPEED'' c = Inr ''BBYBB'')
              [''ERASE'', ''SPEED'', ''CRANE'', ''ABBEY'', ''EERIE'']) \<and>
     length (filter (\<lambda>c. get_feedback ''SPEED'' c = Inr ''BBYBB'')
              [''ERASE'', ''SPEED'', ''CRANE'', ''ABBEY'', ''EERIE''])
       \<le> length [''ERASE'', ''SPEED'', ''CRANE'', ''ABBEY'', ''EERIE'']"
proof -
  have h1: "5 \<le> length ''SPEED''" by simp
  have h2: "\<forall>w\<in>set [''ERASE'', ''SPEED'', ''CRANE'', ''ABBEY'', ''EERIE'']. 5 \<le> length w" by simp
  show ?thesis by (rule filter_words_exact [OF h1 h2])
qed

text \<open>
  C7. For a target \<open>t\<close> among the candidates, filtering the candidates by the
  feedback of a guess \<open>g\<close> against \<open>t\<close> keeps \<open>t\<close>.
\<close>

theorem filter_words_keeps_target:
  assumes "5 \<le> length g" and "\<forall>w\<in>set candidates. 5 \<le> length w" and "t \<in> set candidates"
  shows "\<exists>fb r. get_feedback g t = Inr fb \<and> filter_words candidates g fb = Inr r \<and> t \<in> set r"
proof -
  from assms(2,3) have "5 \<le> length t" by blast
  from get_feedback_Inr [OF assms(1) this] obtain fb where fb: "get_feedback g t = Inr fb"
    by blast
  have "filter_words candidates g fb =
      Inr (filter (\<lambda>c. get_feedback g c = Inr fb) candidates)"
    using filter_words_loop_eq [OF assms(1,2), of fb "[]"] by (simp add: filter_words_def)
  moreover have "t \<in> set (filter (\<lambda>c. get_feedback g c = Inr fb) candidates)"
    using assms(3) fb by simp
  ultimately show ?thesis using fb by blast
qed

theorem filter_words_keeps_target_witness:
  "\<exists>fb r. get_feedback ''COURT'' ''CRANE'' = Inr fb \<and>
     filter_words [''ERASE'', ''CRANE'', ''ABBEY''] ''COURT'' fb = Inr r \<and> ''CRANE'' \<in> set r"
proof -
  have h1: "5 \<le> length ''COURT''" by simp
  have h2: "\<forall>w\<in>set [''ERASE'', ''CRANE'', ''ABBEY'']. 5 \<le> length w" by simp
  have h3: "''CRANE'' \<in> set [''ERASE'', ''CRANE'', ''ABBEY'']" by simp
  show ?thesis by (rule filter_words_keeps_target [OF h1 h2 h3])
qed

section \<open>Claims about the partitions\<close>

lemma dict_append_keys:
  "fst ` set (dict_append ps k w) = insert k (fst ` set ps)"
  by (induction ps k w rule: dict_append.induct) auto

lemma dict_append_distinct:
  "distinct (map fst ps) \<Longrightarrow> distinct (map fst (dict_append ps k w))"
  by (induction ps k w rule: dict_append.induct) (auto simp: dict_append_keys)

lemma dict_append_map_of:
  "map_of (dict_append ps k w) =
     (map_of ps)(k \<mapsto> (case map_of ps k of None \<Rightarrow> [w] | Some ws \<Rightarrow> ws @ [w]))"
  by (induction ps k w rule: dict_append.induct) (auto simp: fun_eq_iff)

lemma dict_append_mset:
  "mset (concat (map snd (dict_append ps k w))) = mset (concat (map snd ps)) + {#w#}"
  by (induction ps k w rule: dict_append.induct) auto

lemma partitions_of_step:
  assumes "partitions_of g seen ps" and "get_feedback g w = Inr fb"
  shows "partitions_of g (seen @ [w]) (dict_append ps fb w)"
  using assms
  by (auto simp: partitions_of_def dict_append_distinct dict_append_mset dict_append_map_of)

lemma calculate_partitions_loop_inv:
  assumes "5 \<le> length g" and "\<forall>w\<in>set ws. 5 \<le> length w"
    and "partitions_of g seen ps"
  shows "\<exists>ps'. calculate_partitions_loop g ws ps = Inr ps' \<and> partitions_of g (seen @ ws) ps'"
  using assms(2,3)
proof (induction ws arbitrary: seen ps)
  case Nil
  then show ?case by simp
next
  case (Cons w ws)
  from Cons.prems have "5 \<le> length w" by simp
  from get_feedback_Inr [OF assms(1) this] obtain fb where fb: "get_feedback g w = Inr fb"
    by blast
  have "partitions_of g (seen @ [w]) (dict_append ps fb w)"
    using Cons.prems(2) fb by (rule partitions_of_step)
  moreover from Cons.prems have "\<forall>w\<in>set ws. 5 \<le> length w" by simp
  ultimately have "\<exists>ps'. calculate_partitions_loop g ws (dict_append ps fb w) = Inr ps' \<and>
      partitions_of g ((seen @ [w]) @ ws) ps'"
    by (rule Cons.IH [rotated])
  then show ?case by (simp add: fb)
qed

lemma calculate_partitions_inv:
  assumes "5 \<le> length g" and "\<forall>w\<in>set ws. 5 \<le> length w"
  shows "\<exists>ps. calculate_partitions g ws = Inr ps \<and> partitions_of g ws ps"
proof -
  have "partitions_of g [] []" by (simp add: partitions_of_def)
  from calculate_partitions_loop_inv [OF assms this] show ?thesis
    by (simp add: calculate_partitions_def)
qed

lemma partitions_of_group:
  assumes "partitions_of g ws ps" and "p \<in> set ps"
  shows "snd p = filter (\<lambda>w. get_feedback g w = Inr (fst p)) ws \<and> snd p \<noteq> []"
proof -
  from assms(1) have "distinct (map fst ps)" by (simp add: partitions_of_def)
  moreover from assms(2) have "(fst p, snd p) \<in> set ps" by simp
  ultimately have "map_of ps (fst p) = Some (snd p)"
    by (simp only: map_of_eq_Some_iff)
  moreover from assms(1) have "map_of ps (fst p) =
        (if filter (\<lambda>w. get_feedback g w = Inr (fst p)) ws = [] then None
         else Some (filter (\<lambda>w. get_feedback g w = Inr (fst p)) ws))"
    by (simp add: partitions_of_def)
  ultimately show ?thesis by (auto split: if_splits)
qed

lemma partitions_of_disjoint:
  assumes "partitions_of g ws ps" and "i < length ps" and "j < length ps" and "i \<noteq> j"
  shows "set (snd (ps ! i)) \<inter> set (snd (ps ! j)) = {}"
proof -
  from assms have "distinct (map fst ps)" by (simp add: partitions_of_def)
  with assms(2,3,4) have ne: "fst (ps ! i) \<noteq> fst (ps ! j)"
    by (metis distinct_conv_nth length_map nth_map)
  have "snd (ps ! i) = filter (\<lambda>w. get_feedback g w = Inr (fst (ps ! i))) ws"
    using partitions_of_group [OF assms(1)] assms(2) by simp
  moreover have "snd (ps ! j) = filter (\<lambda>w. get_feedback g w = Inr (fst (ps ! j))) ws"
    using partitions_of_group [OF assms(1)] assms(3) by simp
  ultimately show ?thesis using ne by auto
qed

text \<open>
  C8. For a guess and candidates of at least five letters,
  \<^verbatim>\<open>calculate_partitions\<close> returns groups with distinct keys that are pairwise
  disjoint and whose union is the candidate list: every candidate occurs in the
  groups as often as in the list, and each group holds exactly the candidates with
  its key as feedback. For the empty candidate list the result is the empty mapping.
\<close>

theorem calculate_partitions_cover:
  assumes "5 \<le> length g" and "\<forall>w\<in>set candidates. 5 \<le> length w"
  shows "(\<exists>ps. calculate_partitions g candidates = Inr ps \<and>
       distinct (map fst ps) \<and>
       (\<forall>i<length ps. \<forall>j<length ps. i \<noteq> j \<longrightarrow>
          set (snd (ps ! i)) \<inter> set (snd (ps ! j)) = {}) \<and>
       mset (concat (map snd ps)) = mset candidates \<and>
       \<Union> (set ` snd ` set ps) = set candidates \<and>
       (\<forall>p\<in>set ps. snd p = filter (\<lambda>w. get_feedback g w = Inr (fst p)) candidates)) \<and>
     calculate_partitions g [] = Inr []"
proof -
  from calculate_partitions_inv [OF assms] obtain ps where
    ps: "calculate_partitions g candidates = Inr ps" and inv: "partitions_of g candidates ps"
    by blast
  have d: "distinct (map fst ps)" using inv by (simp add: partitions_of_def)
  have m: "mset (concat (map snd ps)) = mset candidates"
    using inv by (simp add: partitions_of_def)
  have "set (concat (map snd ps)) = set candidates"
    using m by (metis set_mset_mset)
  then have u: "\<Union> (set ` snd ` set ps) = set candidates"
    by (simp add: image_image)
  have dj: "\<forall>i<length ps. \<forall>j<length ps. i \<noteq> j \<longrightarrow>
      set (snd (ps ! i)) \<inter> set (snd (ps ! j)) = {}"
    using partitions_of_disjoint [OF inv] by blast
  have gr: "\<forall>p\<in>set ps. snd p = filter (\<lambda>w. get_feedback g w = Inr (fst p)) candidates"
    using partitions_of_group [OF inv] by blast
  have e: "calculate_partitions g [] = Inr []"
    by (simp add: calculate_partitions_def)
  from ps d dj m u gr e show ?thesis by blast
qed

theorem calculate_partitions_cover_witness:
  "(\<exists>ps. calculate_partitions ''SPEED'' [''ERASE'', ''SPEED'', ''CRANE'', ''EERIE''] = Inr ps \<and>
       distinct (map fst ps) \<and>
       (\<forall>i<length ps. \<forall>j<length ps. i \<noteq> j \<longrightarrow>
          set (snd (ps ! i)) \<inter> set (snd (ps ! j)) = {}) \<and>
       mset (concat (map snd ps)) = mset [''ERASE'', ''SPEED'', ''CRANE'', ''EERIE''] \<and>
       \<Union> (set ` snd ` set ps) = set [''ERASE'', ''SPEED'', ''CRANE'', ''EERIE''] \<and>
       (\<forall>p\<in>set ps. snd p = filter (\<lambda>w. get_feedback ''SPEED'' w = Inr (fst p))
           [''ERASE'', ''SPEED'', ''CRANE'', ''EERIE''])) \<and>
     calculate_partitions ''SPEED'' [] = Inr []"
proof -
  have h1: "5 \<le> length ''SPEED''" by simp
  have h2: "\<forall>w\<in>set [''ERASE'', ''SPEED'', ''CRANE'', ''EERIE'']. 5 \<le> length w" by simp
  show ?thesis by (rule calculate_partitions_cover [OF h1 h2])
qed

section \<open>Claims about the selection\<close>

text \<open>
  C10. From turn 2 on, \<^verbatim>\<open>choose_best_word\<close> on an empty candidate list returns
  \<^verbatim>\<open>None\<close> and raises nothing, whatever the dictionary.
\<close>

theorem choose_best_word_no_candidates:
  assumes "2 \<le> turn"
  shows "choose_best_word [] all_words turn known_letters excluded_letters = Inr None"
  using assms by (simp add: choose_best_word_def find_best_distinguishing_word_def)

theorem choose_best_word_no_candidates_witness:
  "choose_best_word [] [''AUDIO'', ''AROSE''] 2 {} {} = Inr None"
proof -
  have h: "(2::int) \<le> 2" by simp
  show ?thesis by (rule choose_best_word_no_candidates [OF h])
qed

text \<open>
  C5 as stated fails: with a single candidate the first branch returns that candidate
  at turn 1 as well, although \<^verbatim>\<open>COURT\<close> is in the dictionary.
\<close>

theorem opener_not_regardless_counterexample:
  "''COURT'' \<in> set [''COURT'', ''ADIEU''] \<and>
   choose_best_word [''ADIEU''] [''COURT'', ''ADIEU''] 1 {} {} = Inr (Some ''ADIEU'') \<and>
   choose_best_word [''ADIEU''] [''COURT'', ''ADIEU''] 1 {} {} \<noteq> Inr (Some ''COURT'')"
  by (simp add: choose_best_word_def)

text \<open>
  C5, amended. For every candidate list whose length is not 1 and every dictionary,
  \<^verbatim>\<open>choose_best_word\<close> at turn 1 returns \<^verbatim>\<open>COURT\<close> when the dictionary contains
  it and \<^verbatim>\<open>ADIEU\<close> otherwise; a candidate list of exactly one word returns that
  word at every turn, turn 1 included, whatever the dictionary.
\<close>

theorem choose_best_word_opening:
  "(length possible_words \<noteq> 1 \<longrightarrow>
      choose_best_word possible_words all_words 1 known_letters excluded_letters =
        Inr (Some (if ''COURT'' \<in> set all_words then ''COURT'' else ''ADIEU''))) \<and>
   choose_best_word [word] all_words turn known_letters excluded_letters = Inr (Some word)"
  by (simp add: choose_best_word_def proven_starters_def)

theorem choose_best_word_opening_witness:
  "choose_best_word [''COURT'', ''AUDIO''] [''COURT'', ''AUDIO''] 1 {} {} = Inr (Some ''COURT'') \<and>
   choose_best_word [''AUDIO'', ''AROSE''] [''AUDIO'', ''AROSE''] 1 {} {} = Inr (Some ''ADIEU'') \<and>
   choose_best_word [''AROSE''] [''COURT'', ''AROSE''] 1 {} {} = Inr (Some ''AROSE'') \<and>
   choose_best_word [''AROSE''] [''COURT'', ''AROSE''] 4 {} {} = Inr (Some ''AROSE'')"
proof -
  have h1: "length [''COURT'', ''AUDIO''] \<noteq> 1" by simp
  have h2: "length [''AUDIO'', ''AROSE''] \<noteq> 1" by simp
  have a: "choose_best_word [''COURT'', ''AUDIO''] [''COURT'', ''AUDIO''] 1 {} {} =
      Inr (Some ''COURT'')"
    using choose_best_word_opening [of "[''COURT'', ''AUDIO'']" "[''COURT'', ''AUDIO'']" "{}" "{}"]
      h1 by simp
  have b: "choose_best_word [''AUDIO'', ''AROSE''] [''AUDIO'', ''AROSE''] 1 {} {} =
      Inr (Some ''ADIEU'')"
    using choose_best_word_opening [of "[''AUDIO'', ''AROSE'']" "[''AUDIO'', ''AROSE'']" "{}" "{}"]
      h2 by simp
  have c: "choose_best_word [''AROSE''] [''COURT'', ''AROSE''] 1 {} {} = Inr (Some ''AROSE'')"
    using choose_best_word_opening [of "[]" "[''COURT'', ''AROSE'']" "{}" "{}" "''AROSE''" 1]
    by (rule conjunct2)
  have d: "choose_best_word [''AROSE''] [''COURT'', ''AROSE''] 4 {} {} = Inr (Some ''AROSE'')"
    using choose_best_word_opening [of "[]" "[''COURT'', ''AROSE'']" "{}" "{}" "''AROSE''" 4]
    by (rule conjunct2)
  from a b c d show ?thesis by simp
qed

lemma evaluate_guess_Inr:
  assumes "5 \<le> length word" and "\<forall>w\<in>set possible_words. 5 \<le> length w"
  shows "\<exists>ps. calculate_partitions word possible_words = Inr ps \<and>
     evaluate_guess word possible_words all_words =
       Inr (max_remaining_of (map (\<lambda>p. length (snd p)) ps),
            avg_remaining_of (map (\<lambda>p. length (snd p)) ps),
            word \<in> set possible_words,
            fsub (float_of_nat (length possible_words))
              (avg_remaining_of (map (\<lambda>p. length (snd p)) ps)))"
proof -
  from calculate_partitions_inv [OF assms] obtain ps where
    "calculate_partitions word possible_words = Inr ps" by blast
  then show ?thesis by (simp add: evaluate_guess_def Let_def)
qed

section \<open>The loops of the selection\<close>

lemma below_trans: "x < y \<Longrightarrow> below y b \<Longrightarrow> below x b"
  by (auto simp: below_def split: option.splits)

lemma not_below_le: "\<not> below y b \<Longrightarrow> below x b \<Longrightarrow> x < y"
  by (auto simp: below_def split: option.splits)

lemma fold_keep_best:
  fixes f :: "'a \<Rightarrow> 'b::linorder"
  shows "(fold (\<lambda>w best. if below (f w) (snd best) then (Some w, Some (f w)) else best) ws init = init \<and>
      (\<forall>v\<in>set ws. \<not> below (f v) (snd init))) \<or>
     (\<exists>i<length ws.
        fold (\<lambda>w best. if below (f w) (snd best) then (Some w, Some (f w)) else best) ws init =
          (Some (ws ! i), Some (f (ws ! i))) \<and>
        below (f (ws ! i)) (snd init) \<and>
        (\<forall>j<length ws. f (ws ! i) \<le> f (ws ! j)) \<and>
        (\<forall>j<i. f (ws ! i) < f (ws ! j)))"
    (is "?keep ws init \<or> ?new ws init")
proof (induction ws arbitrary: init)
  case Nil
  show ?case by simp
next
  case (Cons w ws)
  let ?step = "\<lambda>w best. if below (f w) (snd best) then (Some w, Some (f w)) else best"
  show ?case
  proof (cases "below (f w) (snd init)")
    case True
    let ?init' = "(Some w, Some (f w))"
    have st: "fold ?step (w # ws) init = fold ?step ws ?init'"
      using True by simp
    from Cons.IH [of ?init'] show ?thesis
    proof
      assume k: "?keep ws ?init'"
      then have k1: "fold ?step ws ?init' = ?init'" by blast
      from k have all: "\<forall>v\<in>set ws. f w \<le> f v"
        by (auto simp: below_def)
      show ?thesis
      proof (intro disjI2 exI [of _ 0] conjI)
        show "0 < length (w # ws)" by simp
        show "fold ?step (w # ws) init = (Some ((w # ws) ! 0), Some (f ((w # ws) ! 0)))"
          by (simp only: st k1 nth_Cons_0)
        show "below (f ((w # ws) ! 0)) (snd init)" using True by simp
        show "\<forall>j<length (w # ws). f ((w # ws) ! 0) \<le> f ((w # ws) ! j)"
          using all by (auto simp: nth_Cons split: nat.splits)
        show "\<forall>j<0. f ((w # ws) ! 0) < f ((w # ws) ! j)" by simp
      qed
    next
      assume "?new ws ?init'"
      then obtain i where i: "i < length ws"
        and r: "fold ?step ws ?init' = (Some (ws ! i), Some (f (ws ! i)))"
        and b: "below (f (ws ! i)) (snd ?init')"
        and le: "\<forall>j<length ws. f (ws ! i) \<le> f (ws ! j)"
        and lt: "\<forall>j<i. f (ws ! i) < f (ws ! j)"
        by blast
      from b have lw: "f (ws ! i) < f w" by (simp add: below_def)
      show ?thesis
      proof (intro disjI2 exI [of _ "Suc i"] conjI)
        show "Suc i < length (w # ws)" using i by simp
        show "fold ?step (w # ws) init = (Some ((w # ws) ! Suc i), Some (f ((w # ws) ! Suc i)))"
          by (simp only: st r nth_Cons_Suc)
        show "below (f ((w # ws) ! Suc i)) (snd init)"
          using below_trans [OF lw True] by simp
        show "\<forall>j<length (w # ws). f ((w # ws) ! Suc i) \<le> f ((w # ws) ! j)"
          using le lw by (auto simp: nth_Cons split: nat.splits)
        show "\<forall>j<Suc i. f ((w # ws) ! Suc i) < f ((w # ws) ! j)"
          using lt lw by (auto simp: nth_Cons split: nat.splits)
      qed
    qed
  next
    case False
    have st: "fold ?step (w # ws) init = fold ?step ws init"
      using False by simp
    from Cons.IH [of init] show ?thesis
    proof
      assume k: "?keep ws init"
      then have k1: "fold ?step ws init = init" by blast
      show ?thesis
      proof (intro disjI1 conjI)
        show "fold ?step (w # ws) init = init" by (simp only: st k1)
        show "\<forall>v\<in>set (w # ws). \<not> below (f v) (snd init)"
          using k False by simp
      qed
    next
      assume "?new ws init"
      then obtain i where i: "i < length ws"
        and r: "fold ?step ws init = (Some (ws ! i), Some (f (ws ! i)))"
        and b: "below (f (ws ! i)) (snd init)"
        and le: "\<forall>j<length ws. f (ws ! i) \<le> f (ws ! j)"
        and lt: "\<forall>j<i. f (ws ! i) < f (ws ! j)"
        by blast
      have lw: "f (ws ! i) < f w"
        using False b by (rule not_below_le)
      show ?thesis
      proof (intro disjI2 exI [of _ "Suc i"] conjI)
        show "Suc i < length (w # ws)" using i by simp
        show "fold ?step (w # ws) init = (Some ((w # ws) ! Suc i), Some (f ((w # ws) ! Suc i)))"
          by (simp only: st r nth_Cons_Suc)
        show "below (f ((w # ws) ! Suc i)) (snd init)"
          using b by simp
        show "\<forall>j<length (w # ws). f ((w # ws) ! Suc i) \<le> f ((w # ws) ! j)"
          using le lw by (auto simp: nth_Cons split: nat.splits)
        show "\<forall>j<Suc i. f ((w # ws) ! Suc i) < f ((w # ws) ! j)"
          using lt lw by (auto simp: nth_Cons split: nat.splits)
      qed
    qed
  qed
qed

lemma distinguishing_score_Inr:
  assumes "5 \<le> length word" and "\<forall>w\<in>set possible_words. 5 \<le> length w"
  shows "distinguishing_score word possible_words known_letters excluded_letters =
     Inr (projr (distinguishing_score word possible_words known_letters excluded_letters))"
proof -
  from calculate_partitions_inv [OF assms] obtain ps where
    "calculate_partitions word possible_words = Inr ps" by blast
  then show ?thesis by (simp add: distinguishing_score_def Let_def)
qed

lemma distinguishing_loop_fold:
  assumes "\<forall>w\<in>set ws. 5 \<le> length w" and "\<forall>w\<in>set possible_words. 5 \<le> length w"
  shows "distinguishing_loop ws possible_words known_letters excluded_letters init =
     Inr (fold (\<lambda>w best.
            if below (projr (distinguishing_score w possible_words known_letters excluded_letters))
                 (snd best)
            then (Some w, Some (projr (distinguishing_score w possible_words known_letters
                                         excluded_letters)))
            else best) ws init)"
  using assms(1)
proof (induction ws arbitrary: init)
  case Nil
  show ?case by simp
next
  case (Cons w ws)
  from Cons.prems have "5 \<le> length w" and rest: "\<forall>w\<in>set ws. 5 \<le> length w" by simp_all
  from distinguishing_score_Inr [OF this(1) assms(2)]
  have sc: "distinguishing_score w possible_words known_letters excluded_letters =
     Inr (projr (distinguishing_score w possible_words known_letters excluded_letters))" .
  show ?case
    apply (subst distinguishing_loop.simps)
    apply (subst sc)
    apply (simp only: sum.case Cons.IH [OF rest] fold_simps)
    done
qed

lemma evaluation_candidates_subset:
  "set (evaluation_candidates possible_words all_words) \<subseteq> set all_words \<union> set possible_words"
  by (auto simp: evaluation_candidates_def dest: in_set_takeD)

lemma find_best_distinguishing_word_result:
  assumes "1 < length possible_words"
    and wp: "\<forall>w\<in>set possible_words. 5 \<le> length w"
    and wa: "\<forall>w\<in>set all_words. 5 \<le> length w"
  shows "(evaluation_candidates possible_words all_words = [] \<and>
      find_best_distinguishing_word possible_words all_words known_letters excluded_letters =
        Inr (Some (possible_words ! 0))) \<or>
     (\<exists>i<length (evaluation_candidates possible_words all_words).
        find_best_distinguishing_word possible_words all_words known_letters excluded_letters =
          Inr (Some (evaluation_candidates possible_words all_words ! i)) \<and>
        (\<forall>j<length (evaluation_candidates possible_words all_words).
           projr (distinguishing_score (evaluation_candidates possible_words all_words ! i)
                    possible_words known_letters excluded_letters)
           \<le> projr (distinguishing_score (evaluation_candidates possible_words all_words ! j)
                    possible_words known_letters excluded_letters)) \<and>
        (\<forall>j<i.
           projr (distinguishing_score (evaluation_candidates possible_words all_words ! i)
                    possible_words known_letters excluded_letters)
           < projr (distinguishing_score (evaluation_candidates possible_words all_words ! j)
                    possible_words known_letters excluded_letters)))"
proof -
  define pool where "pool = evaluation_candidates possible_words all_words"
  define sc where "sc = (\<lambda>w. projr (distinguishing_score w possible_words known_letters excluded_letters))"
  have wpool: "\<forall>w\<in>set pool. 5 \<le> length w"
    using evaluation_candidates_subset [of possible_words all_words] wp wa
    unfolding pool_def by blast
  have loop: "distinguishing_loop pool possible_words known_letters excluded_letters (None, None) =
      Inr (fold (\<lambda>w best. if below (sc w) (snd best) then (Some w, Some (sc w)) else best)
             pool (None, None))"
    unfolding sc_def by (rule distinguishing_loop_fold [OF wpool wp])
  have fb: "find_best_distinguishing_word possible_words all_words known_letters excluded_letters =
      (case fold (\<lambda>w best. if below (sc w) (snd best) then (Some w, Some (sc w)) else best)
              pool (None, None) of
         (best_word, best_score) \<Rightarrow>
           (case best_word of
              Some w \<Rightarrow> if w \<noteq> [] then Inr (Some w) else Inr (Some (possible_words ! 0))
            | None \<Rightarrow> Inr (Some (possible_words ! 0))))"
    using assms(1) unfolding find_best_distinguishing_word_def pool_def [symmetric] loop
    by simp
  from fold_keep_best [of sc pool "(None, None)"] show ?thesis
  proof
    assume k: "fold (\<lambda>w best. if below (sc w) (snd best) then (Some w, Some (sc w)) else best)
        pool (None, None) = (None, None) \<and>
      (\<forall>v\<in>set pool. \<not> below (sc v) (snd (None, None)))"
    then have "\<And>v. v \<in> set pool \<Longrightarrow> False" by (simp add: below_def)
    then have "pool = []" by (cases pool) auto
    moreover from k have "find_best_distinguishing_word possible_words all_words known_letters
        excluded_letters = Inr (Some (possible_words ! 0))"
      unfolding fb by simp
    ultimately show ?thesis unfolding pool_def by blast
  next
    assume "\<exists>i<length pool.
        fold (\<lambda>w best. if below (sc w) (snd best) then (Some w, Some (sc w)) else best)
          pool (None, None) = (Some (pool ! i), Some (sc (pool ! i))) \<and>
        below (sc (pool ! i)) (snd (None, None)) \<and>
        (\<forall>j<length pool. sc (pool ! i) \<le> sc (pool ! j)) \<and>
        (\<forall>j<i. sc (pool ! i) < sc (pool ! j))"
    then obtain i where i: "i < length pool"
      and r: "fold (\<lambda>w best. if below (sc w) (snd best) then (Some w, Some (sc w)) else best)
          pool (None, None) = (Some (pool ! i), Some (sc (pool ! i)))"
      and le: "\<forall>j<length pool. sc (pool ! i) \<le> sc (pool ! j)"
      and lt: "\<forall>j<i. sc (pool ! i) < sc (pool ! j)"
      by blast
    from i wpool have "5 \<le> length (pool ! i)" by simp
    then have ne: "pool ! i \<noteq> []" by auto
    have "find_best_distinguishing_word possible_words all_words known_letters
        excluded_letters = Inr (Some (pool ! i))"
      unfolding fb r using ne by simp
    with i le lt show ?thesis unfolding pool_def sc_def by blast
  qed
qed

lemma distinguishing_score_eval:
  assumes "calculate_partitions word possible_words = Inr ps"
  shows "distinguishing_score word possible_words known_letters excluded_letters =
     Inr (fadd (fsub (fadd (float_of_nat (max_remaining_of (map (\<lambda>p. length (snd p)) ps)))
                        (fdiv (avg_remaining_of (map (\<lambda>p. length (snd p)) ps)) 1000))
                  (fmul (float_of_nat (unexplored word known_letters excluded_letters))
                     (round_double (1 / 10))))
            (fmul (float_of_nat (card (set word \<inter> excluded_letters))) (1 / 2)))"
  by (simp add: distinguishing_score_def assms Let_def)

section \<open>The unreachable branch for two candidates\<close>

text \<open>
  C2 fails in the code. The test \<^verbatim>\<open>words_remaining <= 10\<close> at line 205 comes before
  the test \<^verbatim>\<open>words_remaining == 2\<close> at line 210, so with two candidates after turn 1
  the distinguishing search runs and the block under the comment
  \<^verbatim>\<open>SPECIAL CASE: When we have exactly 2 words\<close> is never entered. With the
  candidates \<^verbatim>\<open>CATCH\<close> and \<^verbatim>\<open>BATCH\<close> as the whole dictionary the call returns
  \<^verbatim>\<open>BATCH\<close>, where the two-word block finds no distinguishing word and falls back
  to the first candidate \<^verbatim>\<open>CATCH\<close>. With \<^verbatim>\<open>BLIMP\<close> in the dictionary and the
  letters of \<^verbatim>\<open>LIMP\<close> excluded the call returns \<^verbatim>\<open>BATCH\<close> again
  (scores 0.501 for \<^verbatim>\<open>BATCH\<close>, 0.601 for \<^verbatim>\<open>CATCH\<close>, 2.901 for \<^verbatim>\<open>BLIMP\<close>), where
  the two-word block returns \<^verbatim>\<open>BLIMP\<close>, the word whose feedback tells the two
  candidates apart.
\<close>

theorem two_candidates_branch_unreachable:
  "choose_best_word [''CATCH'', ''BATCH''] [''CATCH'', ''BATCH''] 2 {} {} = Inr (Some ''BATCH'') \<and>
   two_words_branch [''CATCH'', ''BATCH''] [''CATCH'', ''BATCH''] {} {} = Inr (Some ''CATCH'') \<and>
   choose_best_word [''CATCH'', ''BATCH''] [''CATCH'', ''BATCH'', ''BLIMP''] 2 {} (set ''LIMP'') =
     Inr (Some ''BATCH'') \<and>
   two_words_branch [''CATCH'', ''BATCH''] [''CATCH'', ''BATCH'', ''BLIMP''] {} (set ''LIMP'') =
     Inr (Some ''BLIMP'') \<and>
   distinguishing_score ''CATCH'' [''CATCH'', ''BATCH''] {} (set ''LIMP'') =
     Inr (5413326752099335 / 9007199254740992) \<and>
   distinguishing_score ''BATCH'' [''CATCH'', ''BATCH''] {} (set ''LIMP'') =
     Inr (1128151706656309 / 2251799813685248) \<and>
   distinguishing_score ''BLIMP'' [''CATCH'', ''BATCH''] {} (set ''LIMP'') =
     Inr (816558907437613 / 281474976710656)"
proof -
  have pC: "calculate_partitions ''CATCH'' [''CATCH'', ''BATCH''] =
      Inr [(''GGGGG'', [''CATCH'']), (''BGGGG'', [''BATCH''])]"
    by code_simp
  have pB: "calculate_partitions ''BATCH'' [''CATCH'', ''BATCH''] =
      Inr [(''BGGGG'', [''CATCH'']), (''GGGGG'', [''BATCH''])]"
    by code_simp
  have pL: "calculate_partitions ''BLIMP'' [''CATCH'', ''BATCH''] =
      Inr [(''BBBBB'', [''CATCH'']), (''GBBBB'', [''BATCH''])]"
    by code_simp
  have u: "unexplored ''CATCH'' {} {} = 4" "unexplored ''BATCH'' {} {} = 5"
      "unexplored ''CATCH'' {} (set ''LIMP'') = 4" "unexplored ''BATCH'' {} (set ''LIMP'') = 5"
      "unexplored ''BLIMP'' {} (set ''LIMP'') = 1"
    by code_simp+
  have x: "card (set ''CATCH'' \<inter> {}) = 0" "card (set ''BATCH'' \<inter> {}) = 0"
      "card (set ''CATCH'' \<inter> set ''LIMP'') = 0" "card (set ''BATCH'' \<inter> set ''LIMP'') = 0"
      "card (set ''BLIMP'' \<inter> set ''LIMP'') = 4"
    by code_simp+
  have zC: "max_remaining_of (map (\<lambda>p. length (snd p)) [(''GGGGG'', [''CATCH'']), (''BGGGG'', [''BATCH''])]) = 1"
      "avg_remaining_of (map (\<lambda>p. length (snd p)) [(''GGGGG'', [''CATCH'']), (''BGGGG'', [''BATCH''])]) = int_truediv 2 2"
    by (simp_all add: max_remaining_of_def avg_remaining_of_def numeral_2_eq_2)
  have zB: "max_remaining_of (map (\<lambda>p. length (snd p)) [(''BGGGG'', [''CATCH'']), (''GGGGG'', [''BATCH''])]) = 1"
      "avg_remaining_of (map (\<lambda>p. length (snd p)) [(''BGGGG'', [''CATCH'']), (''GGGGG'', [''BATCH''])]) = int_truediv 2 2"
    by (simp_all add: max_remaining_of_def avg_remaining_of_def numeral_2_eq_2)
  have zL: "max_remaining_of (map (\<lambda>p. length (snd p)) [(''BBBBB'', [''CATCH'']), (''GBBBB'', [''BATCH''])]) = 1"
      "avg_remaining_of (map (\<lambda>p. length (snd p)) [(''BBBBB'', [''CATCH'']), (''GBBBB'', [''BATCH''])]) = int_truediv 2 2"
    by (simp_all add: max_remaining_of_def avg_remaining_of_def numeral_2_eq_2)
  have v4: "fadd (fsub (fadd (float_of_nat 1) (fdiv (int_truediv 2 2) 1000))
                    (fmul (float_of_nat 4) (round_double (1 / 10))))
              (fmul (float_of_nat 0) (1 / 2)) = 5413326752099335 / 9007199254740992"
    by (simp add: float_eval)
  have v5: "fadd (fsub (fadd (float_of_nat 1) (fdiv (int_truediv 2 2) 1000))
                    (fmul (float_of_nat 5) (round_double (1 / 10))))
              (fmul (float_of_nat 0) (1 / 2)) = 1128151706656309 / 2251799813685248"
    by (simp add: float_eval)
  have v1: "fadd (fsub (fadd (float_of_nat 1) (fdiv (int_truediv 2 2) 1000))
                    (fmul (float_of_nat 1) (round_double (1 / 10))))
              (fmul (float_of_nat 4) (1 / 2)) = 816558907437613 / 281474976710656"
    by (simp add: float_eval)
  have sC: "distinguishing_score ''CATCH'' [''CATCH'', ''BATCH''] {} {} =
      Inr (5413326752099335 / 9007199254740992)"
    by (simp only: distinguishing_score_eval [OF pC] u x zC v4)
  have sB: "distinguishing_score ''BATCH'' [''CATCH'', ''BATCH''] {} {} =
      Inr (1128151706656309 / 2251799813685248)"
    by (simp only: distinguishing_score_eval [OF pB] u x zB v5)
  have sC': "distinguishing_score ''CATCH'' [''CATCH'', ''BATCH''] {} (set ''LIMP'') =
      Inr (5413326752099335 / 9007199254740992)"
    by (simp only: distinguishing_score_eval [OF pC] u x zC v4)
  have sB': "distinguishing_score ''BATCH'' [''CATCH'', ''BATCH''] {} (set ''LIMP'') =
      Inr (1128151706656309 / 2251799813685248)"
    by (simp only: distinguishing_score_eval [OF pB] u x zB v5)
  have sL': "distinguishing_score ''BLIMP'' [''CATCH'', ''BATCH''] {} (set ''LIMP'') =
      Inr (816558907437613 / 281474976710656)"
    by (simp only: distinguishing_score_eval [OF pL] u x zL v1)
  have e1: "evaluation_candidates [''CATCH'', ''BATCH''] [''CATCH'', ''BATCH''] =
      [''CATCH'', ''BATCH'']"
    by code_simp
  have e2: "evaluation_candidates [''CATCH'', ''BATCH''] [''CATCH'', ''BATCH'', ''BLIMP''] =
      [''BLIMP'', ''CATCH'', ''BATCH'']"
    by code_simp
  have a: "choose_best_word [''CATCH'', ''BATCH''] [''CATCH'', ''BATCH''] 2 {} {} =
      Inr (Some ''BATCH'')"
    by (simp add: choose_best_word_def find_best_distinguishing_word_def e1 sC sB below_def)
  have b: "two_words_branch [''CATCH'', ''BATCH''] [''CATCH'', ''BATCH''] {} {} =
      Inr (Some ''CATCH'')"
    by code_simp
  have c: "choose_best_word [''CATCH'', ''BATCH''] [''CATCH'', ''BATCH'', ''BLIMP''] 2 {}
      (set ''LIMP'') = Inr (Some ''BATCH'')"
    by (simp add: choose_best_word_def find_best_distinguishing_word_def e2 sC' sB' sL' below_def
        del: set_simps)
  have d: "two_words_branch [''CATCH'', ''BATCH''] [''CATCH'', ''BATCH'', ''BLIMP''] {}
      (set ''LIMP'') = Inr (Some ''BLIMP'')"
    by code_simp
  from a b c d sC' sB' sL' show ?thesis by (intro conjI)
qed

section \<open>The general case\<close>

lemma score_candidate_Inr:
  assumes "5 \<le> length word" and "\<forall>w\<in>set possible_words. 5 \<le> length w"
  shows "score_candidate word possible_words all_words turn known_letters excluded_letters =
       Inr (projr (score_candidate word possible_words all_words turn known_letters
                     excluded_letters)) \<and>
     fst (snd (projr (score_candidate word possible_words all_words turn known_letters
                        excluded_letters))) = word"
proof -
  from evaluate_guess_Inr [OF assms, of all_words] obtain ps where
    cp: "calculate_partitions word possible_words = Inr ps" and
    ev: "evaluate_guess word possible_words all_words =
       Inr (max_remaining_of (map (\<lambda>p. length (snd p)) ps),
            avg_remaining_of (map (\<lambda>p. length (snd p)) ps),
            word \<in> set possible_words,
            fsub (float_of_nat (length possible_words))
              (avg_remaining_of (map (\<lambda>p. length (snd p)) ps)))"
    by (elim exE conjE)
  show ?thesis
    unfolding score_candidate_def ev by (simp add: Let_def)
qed

lemma score_loop_map:
  assumes "\<forall>w\<in>set ws. 5 \<le> length w" and "\<forall>w\<in>set possible_words. 5 \<le> length w"
  shows "score_loop ws possible_words all_words turn known_letters excluded_letters acc =
     Inr (acc @ map (\<lambda>w. projr (score_candidate w possible_words all_words turn known_letters
                                   excluded_letters)) ws)"
  using assms(1)
proof (induction ws arbitrary: acc)
  case Nil
  show ?case by simp
next
  case (Cons w ws)
  from Cons.prems have "5 \<le> length w" and rest: "\<forall>w\<in>set ws. 5 \<le> length w" by simp_all
  from score_candidate_Inr [OF this(1) assms(2), of all_words turn known_letters excluded_letters]
  have sc: "score_candidate w possible_words all_words turn known_letters excluded_letters =
       Inr (projr (score_candidate w possible_words all_words turn known_letters
                     excluded_letters))"
    by (rule conjunct1)
  show ?case
    apply (subst score_loop.simps)
    apply (subst sc)
    apply (simp only: sum.case Cons.IH [OF rest])
    apply simp
    done
qed

lemma sort_head_least:
  fixes xs :: "'a::linorder list"
  assumes "xs \<noteq> []"
  shows "\<exists>b rest. sort xs = b # rest \<and> b \<in> set xs \<and> (\<forall>c\<in>set xs. b \<le> c)"
proof -
  have "length (sort xs) = length xs" by simp
  with assms have "sort xs \<noteq> []" by (metis length_0_conv)
  then obtain b rest where s: "sort xs = b # rest" by (cases "sort xs") auto
  have "sorted (sort xs)" by simp
  then have "sorted (b # rest)" by (simp only: s)
  then have le: "\<forall>c\<in>set (b # rest). b \<le> c" by auto
  have "set (sort xs) = set xs" by simp
  then have st: "set (b # rest) = set xs" by (simp only: s)
  from le have "\<forall>c\<in>set xs. b \<le> c" unfolding st .
  moreover from st have "b \<in> set xs" by auto
  ultimately show ?thesis using s by blast
qed

lemma candidate_le_score_word:
  fixes c c' :: candidate
  assumes "c \<le> c'"
  shows "fst c < fst c' \<or> (fst c = fst c' \<and> fst (snd c) \<le> fst (snd c'))"
  using assms by (auto simp: less_eq_prod_def)

lemma select_scored_least:
  assumes "ws \<noteq> []" and ww: "\<forall>w\<in>set ws. 5 \<le> length w"
    and wp: "\<forall>w\<in>set possible_words. 5 \<le> length w"
  shows "\<exists>w\<in>set ws.
     select_scored ws possible_words all_words turn known_letters excluded_letters =
       Inr (Some w) \<and>
     (\<forall>v\<in>set ws.
        projr (score_candidate w possible_words all_words turn known_letters excluded_letters)
        \<le> projr (score_candidate v possible_words all_words turn known_letters excluded_letters))"
proof -
  define sc where "sc = (\<lambda>w. projr (score_candidate w possible_words all_words turn
      known_letters excluded_letters))"
  have loop: "score_loop ws possible_words all_words turn known_letters excluded_letters [] =
      Inr (map sc ws)"
    unfolding sc_def using score_loop_map [OF ww wp, of all_words turn known_letters
        excluded_letters "[]"] by simp
  from assms(1) have "map sc ws \<noteq> []" by simp
  from sort_head_least [OF this] obtain b rest where
    s: "sort (map sc ws) = b # rest" and bin: "b \<in> set (map sc ws)"
    and least: "\<forall>c\<in>set (map sc ws). b \<le> c"
    by blast
  from bin obtain w where w: "w \<in> set ws" and bw: "b = sc w" by auto
  from w ww have "5 \<le> length w" by simp
  from score_candidate_Inr [OF this wp, of all_words turn known_letters excluded_letters]
  have "fst (snd (sc w)) = w" unfolding sc_def by (rule conjunct2)
  then have "select_scored ws possible_words all_words turn known_letters excluded_letters =
      Inr (Some w)"
    unfolding select_scored_def loop by (simp add: s bw)
  moreover have "\<forall>v\<in>set ws. sc w \<le> sc v"
    using least bw by simp
  ultimately show ?thesis using w unfolding sc_def by blast
qed

lemma elimination_set_subset:
  "set (elimination_set possible_words all_words known_letters excluded_letters) \<subseteq> set all_words"
proof -
  have "\<And>P. set (filter P (take 800 all_words)) \<subseteq> set all_words"
    by (auto dest: in_set_takeD)
  then show ?thesis
    unfolding elimination_set_def Let_def
    by (auto dest!: in_set_takeD split: if_splits)
qed

lemma medium_set_subset:
  "set (medium_set possible_words all_words known_letters excluded_letters) \<subseteq> set all_words"
proof
  fix w
  assume "w \<in> set (medium_set possible_words all_words known_letters excluded_letters)"
  then obtain p where
    "p \<in> set (take 100 (rev (sort (map (\<lambda>word. (unexplored word known_letters excluded_letters, word))
              (filter (\<lambda>word. word \<notin> set possible_words \<and>
                         unexplored word known_letters excluded_letters \<ge> 2)
                 (take 600 all_words))))))" and "w = snd p"
    unfolding medium_set_def Let_def by auto
  then have "p \<in> set (map (\<lambda>word. (unexplored word known_letters excluded_letters, word))
              (filter (\<lambda>word. word \<notin> set possible_words \<and>
                         unexplored word known_letters excluded_letters \<ge> 2)
                 (take 600 all_words)))"
    by (auto dest!: in_set_takeD)
  with \<open>w = snd p\<close> have "w \<in> set (take 600 all_words)" by auto
  then show "w \<in> set all_words" by (rule in_set_takeD)
qed

lemma evaluation_set_subset:
  "set (evaluation_set possible_words all_words known_letters excluded_letters) \<subseteq> set all_words"
  unfolding evaluation_set_def
  using elimination_set_subset medium_set_subset by simp

lemma choose_best_word_general:
  assumes "10 < length possible_words" and "turn \<noteq> 1"
  shows "choose_best_word possible_words all_words turn known_letters excluded_letters =
     select_scored (evaluation_set possible_words all_words known_letters excluded_letters)
       possible_words all_words turn known_letters excluded_letters"
  using assms by (simp add: choose_best_word_def evaluation_set_def)

lemma general_case_least:
  assumes "10 < length possible_words" and "turn \<noteq> 1"
    and wp: "\<forall>w\<in>set possible_words. 5 \<le> length w"
    and wa: "\<forall>w\<in>set all_words. 5 \<le> length w"
    and ne: "evaluation_set possible_words all_words known_letters excluded_letters \<noteq> []"
  shows "\<exists>w\<in>set (evaluation_set possible_words all_words known_letters excluded_letters). \<exists>s.
     choose_best_word possible_words all_words turn known_letters excluded_letters =
       Inr (Some w) \<and>
     final_score w possible_words all_words turn known_letters excluded_letters = Inr s \<and>
     (\<forall>v\<in>set (evaluation_set possible_words all_words known_letters excluded_letters). \<exists>s'.
        final_score v possible_words all_words turn known_letters excluded_letters = Inr s' \<and>
        (s < s' \<or> (s = s' \<and> w \<le> v)))"
proof -
  define pool where "pool = evaluation_set possible_words all_words known_letters excluded_letters"
  define sc where "sc = (\<lambda>w. projr (score_candidate w possible_words all_words turn
      known_letters excluded_letters))"
  have wpool: "\<forall>w\<in>set pool. 5 \<le> length w"
    using evaluation_set_subset [of possible_words all_words known_letters excluded_letters] wa
    unfolding pool_def by blast
  have fs: "\<And>v. v \<in> set pool \<Longrightarrow>
      final_score v possible_words all_words turn known_letters excluded_letters =
        Inr (fst (sc v)) \<and> fst (snd (sc v)) = v"
  proof -
    fix v assume "v \<in> set pool"
    with wpool have "5 \<le> length v" by simp
    from score_candidate_Inr [OF this wp, of all_words turn known_letters excluded_letters]
    have a: "score_candidate v possible_words all_words turn known_letters excluded_letters =
        Inr (sc v)" and b: "fst (snd (sc v)) = v"
      unfolding sc_def by simp_all
    show "final_score v possible_words all_words turn known_letters excluded_letters =
        Inr (fst (sc v)) \<and> fst (snd (sc v)) = v"
      unfolding final_score_def a using b by simp
  qed
  from ne have "pool \<noteq> []" by (simp add: pool_def)
  from select_scored_least [OF this wpool wp, of all_words turn known_letters excluded_letters]
  obtain w where w: "w \<in> set pool"
    and r: "select_scored pool possible_words all_words turn known_letters excluded_letters =
       Inr (Some w)"
    and least: "\<forall>v\<in>set pool. sc w \<le> sc v"
    unfolding sc_def by blast
  have ch: "choose_best_word possible_words all_words turn known_letters excluded_letters =
      Inr (Some w)"
    using choose_best_word_general [OF assms(1,2)] r unfolding pool_def by simp
  have "\<forall>v\<in>set pool. \<exists>s'.
        final_score v possible_words all_words turn known_letters excluded_letters = Inr s' \<and>
        (fst (sc w) < s' \<or> (fst (sc w) = s' \<and> w \<le> v))"
  proof
    fix v assume v: "v \<in> set pool"
    from least v have "sc w \<le> sc v" by blast
    from candidate_le_score_word [OF this]
    have "fst (sc w) < fst (sc v) \<or> (fst (sc w) = fst (sc v) \<and> w \<le> v)"
      using fs [OF w] fs [OF v] by simp
    with fs [OF v] show "\<exists>s'.
        final_score v possible_words all_words turn known_letters excluded_letters = Inr s' \<and>
        (fst (sc w) < s' \<or> (fst (sc w) = s' \<and> w \<le> v))"
      by blast
  qed
  with ch fs [OF w] w show ?thesis unfolding pool_def by blast
qed

lemma final_score_non_answer:
  assumes "calculate_partitions word possible_words = Inr ps"
    and "word \<notin> set possible_words" and "6 < length possible_words"
  shows "final_score word possible_words all_words turn known_letters excluded_letters =
     Inr (fadd (fadd (fadd (float_of_nat (max_remaining_of (map (\<lambda>p. length (snd p)) ps)))
                        (fdiv (avg_remaining_of (map (\<lambda>p. length (snd p)) ps)) 1000))
                  (- (1 / 2)))
            (fadd (fmul (float_of_int (- int (unexplored word known_letters excluded_letters)))
                     (1 / 2))
               (fmul (float_of_nat (card (set word \<inter> known_letters)))
                  (round_double (3 / 10)))))"
  using assms by (simp add: final_score_def score_candidate_def evaluate_guess_def Let_def)

lemma partitions_of_sizes:
  assumes inv: "partitions_of g ws ps"
    and fb: "\<forall>w\<in>set ws. \<exists>k. get_feedback g w = Inr k"
  shows "sum_list (map (\<lambda>p. length (snd p)) ps) = length ws"
    and "length ps = card (get_feedback g ` set ws)"
    and "set (map (\<lambda>p. length (snd p)) ps) =
       (\<lambda>c. length (filter (\<lambda>w. get_feedback g w = get_feedback g c) ws)) ` set ws"
proof -
  from inv have m: "mset (concat (map snd ps)) = mset ws" by (simp add: partitions_of_def)
  then have "length (concat (map snd ps)) = length ws" by (metis size_mset)
  then show "sum_list (map (\<lambda>p. length (snd p)) ps) = length ws"
    by (simp add: length_concat comp_def)
  from inv have d: "distinct (map fst ps)" by (simp add: partitions_of_def)
  have mo: "\<And>k. map_of ps k =
        (if filter (\<lambda>w. get_feedback g w = Inr k) ws = [] then None
         else Some (filter (\<lambda>w. get_feedback g w = Inr k) ws))"
    using inv by (simp add: partitions_of_def)
  have grp: "\<And>p. p \<in> set ps \<Longrightarrow>
      \<exists>c\<in>set ws. get_feedback g c = Inr (fst p) \<and>
        snd p = filter (\<lambda>w. get_feedback g w = get_feedback g c) ws"
  proof -
    fix p assume "p \<in> set ps"
    from partitions_of_group [OF inv this]
    have a: "snd p = filter (\<lambda>w. get_feedback g w = Inr (fst p)) ws" and b: "snd p \<noteq> []"
      by (rule conjunct1, rule conjunct2)
    from b obtain c where "c \<in> set (snd p)" by (cases "snd p") auto
    then have "c \<in> set (filter (\<lambda>w. get_feedback g w = Inr (fst p)) ws)" using a by simp
    then have "c \<in> set ws" and "get_feedback g c = Inr (fst p)" by simp_all
    with a show "\<exists>c\<in>set ws. get_feedback g c = Inr (fst p) \<and>
        snd p = filter (\<lambda>w. get_feedback g w = get_feedback g c) ws"
      by auto
  qed
  have mem: "\<And>c. c \<in> set ws \<Longrightarrow>
      \<exists>p\<in>set ps. get_feedback g c = Inr (fst p) \<and>
        snd p = filter (\<lambda>w. get_feedback g w = get_feedback g c) ws"
  proof -
    fix c assume c: "c \<in> set ws"
    with fb obtain k where k: "get_feedback g c = Inr k" by blast
    with c have "filter (\<lambda>w. get_feedback g w = Inr k) ws \<noteq> []"
      by (auto simp: filter_empty_conv)
    with mo [of k] have "map_of ps k = Some (filter (\<lambda>w. get_feedback g w = Inr k) ws)"
      by simp
    then have "(k, filter (\<lambda>w. get_feedback g w = Inr k) ws) \<in> set ps" by (rule map_of_SomeD)
    with k show "\<exists>p\<in>set ps. get_feedback g c = Inr (fst p) \<and>
        snd p = filter (\<lambda>w. get_feedback g w = get_feedback g c) ws"
      by force
  qed
  have "(Inr :: string \<Rightarrow> error + string) ` fst ` set ps = get_feedback g ` set ws"
  proof (intro equalityI subsetI)
    fix x :: "error + string" assume "x \<in> Inr ` fst ` set ps"
    then obtain p where "p \<in> set ps" and "x = Inr (fst p)" by auto
    with grp [OF this(1)] show "x \<in> get_feedback g ` set ws" by force
  next
    fix x :: "error + string" assume "x \<in> get_feedback g ` set ws"
    then obtain c where "c \<in> set ws" and "x = get_feedback g c" by auto
    with mem [OF this(1)] show "x \<in> Inr ` fst ` set ps" by force
  qed
  then have "card (get_feedback g ` set ws) =
      card ((Inr :: string \<Rightarrow> error + string) ` fst ` set ps)" by simp
  also have "\<dots> = card (fst ` set ps)" by (rule card_image) simp
  also have "\<dots> = length ps" using distinct_card [OF d] by simp
  finally show "length ps = card (get_feedback g ` set ws)" by simp
  show "set (map (\<lambda>p. length (snd p)) ps) =
       (\<lambda>c. length (filter (\<lambda>w. get_feedback g w = get_feedback g c) ws)) ` set ws"
  proof (intro equalityI subsetI)
    fix n assume "n \<in> set (map (\<lambda>p. length (snd p)) ps)"
    then obtain p where "p \<in> set ps" and "n = length (snd p)" by auto
    with grp [OF this(1)]
    show "n \<in> (\<lambda>c. length (filter (\<lambda>w. get_feedback g w = get_feedback g c) ws)) ` set ws"
      by force
  next
    fix n
    assume "n \<in> (\<lambda>c. length (filter (\<lambda>w. get_feedback g w = get_feedback g c) ws)) ` set ws"
    then obtain c where "c \<in> set ws"
      and n: "n = length (filter (\<lambda>w. get_feedback g w = get_feedback g c) ws)" by auto
    from mem [OF this(1)] obtain p where "p \<in> set ps"
      and "snd p = filter (\<lambda>w. get_feedback g w = get_feedback g c) ws" by blast
    with n show "n \<in> set (map (\<lambda>p. length (snd p)) ps)" by force
  qed
qed

section \<open>Claims about the general case and about totality\<close>

text \<open>
  C6 as stated fails. The source adds the four terms as floats in the order
  \<^verbatim>\<open>base_score + tie_breaker + answer_bonus + exploration_bonus\<close>: the answer term
  comes before the exploration term, and every sum is rounded. For the word
  \<^verbatim>\<open>ENDOW\<close> against 11 candidates with \<^verbatim>\<open>E\<close> known, the groups have sizes 10 and 1
  (worst case 10, mean 5.5), 4 letters are unexplored and 1 is known. The source
  computes 7.805499999999999; the sum in the order of the claim, exploration term
  before answer term, is the float 7.8055; the sum in exact arithmetic, 15611/2000, is
  neither.
\<close>

theorem score_sum_order_counterexample:
  "final_score ''ENDOW''
     [''TASTE'', ''PASTE'', ''WASTE'', ''BASTE'', ''LEAST'', ''BEAST'', ''YEAST'', ''TABLE'',
      ''SABLE'', ''GAVEL'', ''PIXEL'']
     [''ENDOW'', ''TASTE'', ''PASTE'', ''WASTE'', ''BASTE'', ''LEAST'', ''BEAST'', ''YEAST'',
      ''TABLE'', ''SABLE'', ''GAVEL'', ''PIXEL''] 2 (set ''E'') {} =
     Inr (8788211722860101 / 1125899906842624) \<and>
   calculate_partitions ''ENDOW''
     [''TASTE'', ''PASTE'', ''WASTE'', ''BASTE'', ''LEAST'', ''BEAST'', ''YEAST'', ''TABLE'',
      ''SABLE'', ''GAVEL'', ''PIXEL''] =
     Inr [(''YBBBB'', [''TASTE'', ''PASTE'', ''BASTE'', ''LEAST'', ''BEAST'', ''YEAST'', ''TABLE'',
                       ''SABLE'', ''GAVEL'', ''PIXEL'']),
          (''YBBBY'', [''WASTE''])] \<and>
   unexplored ''ENDOW'' (set ''E'') {} = 4 \<and>
   card (set ''ENDOW'' \<inter> set ''E'') = 1 \<and>
   fadd (fadd (fadd (float_of_nat 10) (fdiv (int_truediv 11 2) 1000))
           (fadd (fmul (float_of_int (- 4)) (1 / 2)) (fmul (float_of_nat 1) (round_double (3 / 10)))))
     (- (1 / 2)) = 4394105861430051 / 562949953421312 \<and>
   (4394105861430051 / 562949953421312 :: rat) \<noteq> 8788211722860101 / 1125899906842624 \<and>
   (10 + (11 / 2) / 1000 + (- (1 / 2) * 4 + (3 / 10) * 1) + - (1 / 2) :: rat) = 15611 / 2000 \<and>
   (15611 / 2000 :: rat) \<noteq> 8788211722860101 / 1125899906842624"
proof -
  define pw where "pw = [''TASTE'', ''PASTE'', ''WASTE'', ''BASTE'', ''LEAST'', ''BEAST'',
      ''YEAST'', ''TABLE'', ''SABLE'', ''GAVEL'', ''PIXEL'']"
  define aw where "aw = [''ENDOW'', ''TASTE'', ''PASTE'', ''WASTE'', ''BASTE'', ''LEAST'',
      ''BEAST'', ''YEAST'', ''TABLE'', ''SABLE'', ''GAVEL'', ''PIXEL'']"
  have p: "calculate_partitions ''ENDOW'' pw =
     Inr [(''YBBBB'', [''TASTE'', ''PASTE'', ''BASTE'', ''LEAST'', ''BEAST'', ''YEAST'', ''TABLE'',
                       ''SABLE'', ''GAVEL'', ''PIXEL'']),
          (''YBBBY'', [''WASTE''])]"
    unfolding pw_def by code_simp
  have n: "''ENDOW'' \<notin> set pw" "6 < length pw"
    unfolding pw_def by simp_all
  have u: "unexplored ''ENDOW'' (set ''E'') {} = 4" by code_simp
  have x: "card (set ''ENDOW'' \<inter> set ''E'') = 1" by code_simp
  have z: "max_remaining_of (map (\<lambda>p. length (snd p))
        [(''YBBBB'', [''TASTE'', ''PASTE'', ''BASTE'', ''LEAST'', ''BEAST'', ''YEAST'', ''TABLE'',
                      ''SABLE'', ''GAVEL'', ''PIXEL'']),
         (''YBBBY'', [''WASTE''])]) = 10"
      "avg_remaining_of (map (\<lambda>p. length (snd p))
        [(''YBBBB'', [''TASTE'', ''PASTE'', ''BASTE'', ''LEAST'', ''BEAST'', ''YEAST'', ''TABLE'',
                      ''SABLE'', ''GAVEL'', ''PIXEL'']),
         (''YBBBY'', [''WASTE''])]) = int_truediv 11 2"
    by (simp_all add: max_remaining_of_def avg_remaining_of_def eval_nat_numeral)
  have v: "fadd (fadd (fadd (float_of_nat 10) (fdiv (int_truediv 11 2) 1000)) (- (1 / 2)))
             (fadd (fmul (float_of_int (- int 4)) (1 / 2))
                (fmul (float_of_nat 1) (round_double (3 / 10)))) =
           8788211722860101 / 1125899906842624"
    by (simp add: float_eval)
  have s: "final_score ''ENDOW'' pw aw 2 (set ''E'') {} =
      Inr (8788211722860101 / 1125899906842624)"
    by (simp only: final_score_non_answer [OF p n] u x z v)
  have c: "fadd (fadd (fadd (float_of_nat 10) (fdiv (int_truediv 11 2) 1000))
           (fadd (fmul (float_of_int (- 4)) (1 / 2)) (fmul (float_of_nat 1) (round_double (3 / 10)))))
     (- (1 / 2)) = 4394105861430051 / 562949953421312"
    by (simp add: float_eval)
  have d: "(4394105861430051 / 562949953421312 :: rat) \<noteq> 8788211722860101 / 1125899906842624"
      "(10 + (11 / 2) / 1000 + (- (1 / 2) * 4 + (3 / 10) * 1) + - (1 / 2) :: rat) = 15611 / 2000"
      "(15611 / 2000 :: rat) \<noteq> 8788211722860101 / 1125899906842624"
    by simp_all
  from s p u x c d show ?thesis unfolding pw_def aw_def by (intro conjI)
qed

text \<open>
  C6, amended. For a non-empty candidate list and words of at least five letters, the
  score that the scoring loop computes for a word is the float sum
  \<^verbatim>\<open>((worst_case + mean_case / 1000) + answer_term) + exploration_term\<close>, every
  operation rounded to a double, where \<^verbatim>\<open>worst_case\<close> is the size of the largest
  group of candidates that give the same feedback for the word, \<^verbatim>\<open>mean_case\<close> is
  the number of candidates divided by the number of distinct feedbacks,
  \<^verbatim>\<open>exploration_term\<close> is \<^verbatim>\<open>-unexplored * 0.5 + known_overlap * 0.3\<close> for a word
  that is not a candidate when more than 6 candidates remain and 0 otherwise, and
  \<^verbatim>\<open>answer_term\<close> is -1.0 for a candidate when at most 2 candidates remain or the
  turn is at least 5, 2.0 for a candidate otherwise, -0.5 for a word that is not a
  candidate when more than 6 candidates remain, and 0 otherwise.
\<close>

theorem final_score_formula:
  assumes ne: "possible_words \<noteq> []" and lw: "5 \<le> length word"
    and lp: "\<forall>w\<in>set possible_words. 5 \<le> length w"
  shows "final_score word possible_words all_words turn known_letters excluded_letters =
     Inr (let group_size = (\<lambda>c. length (filter (\<lambda>w. get_feedback word w = get_feedback word c)
                                         possible_words));
              worst_case = Max (group_size ` set possible_words);
              mean_case = int_truediv (length possible_words)
                            (card (get_feedback word ` set possible_words));
              unexplored_count = card (set word - known_letters - excluded_letters);
              known_overlap = card (set word \<inter> known_letters);
              is_answer = word \<in> set possible_words;
              remaining = length possible_words;
              answer_term =
                (if is_answer then (if remaining \<le> 2 \<or> 5 \<le> turn then - 1 else 2)
                 else if 6 < remaining then - (1 / 2) else 0);
              exploration_term =
                (if \<not> is_answer \<and> 6 < remaining
                 then fadd (fmul (float_of_int (- int unexplored_count)) (1 / 2))
                        (fmul (float_of_nat known_overlap) (round_double (3 / 10)))
                 else 0)
          in fadd (fadd (fadd (float_of_nat worst_case) (fdiv mean_case 1000)) answer_term)
               exploration_term)"
proof -
  from calculate_partitions_inv [OF lw lp] obtain ps where
    cp: "calculate_partitions word possible_words = Inr ps"
    and inv: "partitions_of word possible_words ps" by blast
  have fb: "\<forall>w\<in>set possible_words. \<exists>k. get_feedback word w = Inr k"
    using get_feedback_Inr [OF lw] lp by blast
  note sz = partitions_of_sizes [OF inv fb]
  from sz(1) ne have pne: "ps \<noteq> []" by auto
  have mx: "max_remaining_of (map (\<lambda>p. length (snd p)) ps) =
      Max ((\<lambda>c. length (filter (\<lambda>w. get_feedback word w = get_feedback word c)
                           possible_words)) ` set possible_words)"
    unfolding max_remaining_of_def sz(3) [symmetric] using pne by simp
  have av: "avg_remaining_of (map (\<lambda>p. length (snd p)) ps) =
      int_truediv (length possible_words) (card (get_feedback word ` set possible_words))"
    unfolding avg_remaining_of_def sz(1) sz(2) [symmetric] using pne by simp
  show ?thesis
    unfolding final_score_def score_candidate_def evaluate_guess_def cp
    by (simp add: Let_def mx av unexplored_def)
qed

theorem final_score_formula_witness:
  "final_score ''ENDOW''
     [''TASTE'', ''PASTE'', ''WASTE'', ''BASTE'', ''LEAST'', ''BEAST'', ''YEAST'', ''TABLE'',
      ''SABLE'', ''GAVEL'', ''PIXEL'']
     [''ENDOW'', ''TASTE'', ''PASTE'', ''WASTE'', ''BASTE'', ''LEAST'', ''BEAST'', ''YEAST'',
      ''TABLE'', ''SABLE'', ''GAVEL'', ''PIXEL''] 3 (set ''E'') {} =
     Inr (fadd (fadd (fadd (float_of_nat 10) (fdiv (int_truediv 11 2) 1000)) (- (1 / 2)))
            (fadd (fmul (float_of_int (- 4)) (1 / 2))
               (fmul (float_of_nat 1) (round_double (3 / 10)))))"
proof -
  define pw where "pw = [''TASTE'', ''PASTE'', ''WASTE'', ''BASTE'', ''LEAST'', ''BEAST'',
      ''YEAST'', ''TABLE'', ''SABLE'', ''GAVEL'', ''PIXEL'']"
  define aw where "aw = [''ENDOW'', ''TASTE'', ''PASTE'', ''WASTE'', ''BASTE'', ''LEAST'',
      ''BEAST'', ''YEAST'', ''TABLE'', ''SABLE'', ''GAVEL'', ''PIXEL'']"
  have h1: "pw \<noteq> []" unfolding pw_def by simp
  have h2: "5 \<le> length ''ENDOW''" by simp
  have h3: "\<forall>w\<in>set pw. 5 \<le> length w" unfolding pw_def by simp
  have mx: "Max ((\<lambda>c. length (filter (\<lambda>w. get_feedback ''ENDOW'' w = get_feedback ''ENDOW'' c)
                                  pw)) ` set pw) = 10"
    unfolding pw_def by code_simp
  have cd: "card (get_feedback ''ENDOW'' ` set pw) = 2"
    unfolding pw_def by code_simp
  have u: "card (set ''ENDOW'' - set ''E'' - {}) = 4" by code_simp
  have x: "card (set ''ENDOW'' \<inter> set ''E'') = 1" by code_simp
  have n: "(''ENDOW'' \<in> set pw) = False" "length pw = 11"
    unfolding pw_def by simp_all
  have a: "(6 < (11::nat)) = True" "int 4 = 4" by simp_all
  from final_score_formula [OF h1 h2 h3, of aw 3 "set ''E''" "{}"]
  have "final_score ''ENDOW'' pw aw 3 (set ''E'') {} =
     Inr (fadd (fadd (fadd (float_of_nat 10) (fdiv (int_truediv 11 2) 1000)) (- (1 / 2)))
            (fadd (fmul (float_of_int (- 4)) (1 / 2))
               (fmul (float_of_nat 1) (round_double (3 / 10)))))"
    by (simp only: Let_def mx cd u x n a if_True if_False simp_thms)
  then show ?thesis unfolding pw_def aw_def .
qed

text \<open>
  C4 as stated fails. With 11 candidates the evaluation set is
  \<^verbatim>\<open>[FJORD, CHUNK]\<close>; both words get the same score, 8.011, and the call returns
  \<^verbatim>\<open>CHUNK\<close>, the second of the evaluation set: \<^verbatim>\<open>candidates.sort()\<close> compares the
  tuples \<^verbatim>\<open>(final_score, word, ...)\<close>, so equal scores are ordered by the word.
\<close>

theorem tie_not_first_encountered_counterexample:
  "evaluation_set
     [''TASTE'', ''PASTE'', ''WASTE'', ''BASTE'', ''LEAST'', ''BEAST'', ''YEAST'', ''TABLE'',
      ''SABLE'', ''GAVEL'', ''PIXEL'']
     [''FJORD'', ''CHUNK'', ''TASTE'', ''PASTE'', ''WASTE'', ''BASTE'', ''LEAST'', ''BEAST'',
      ''YEAST'', ''TABLE'', ''SABLE'', ''GAVEL'', ''PIXEL''] {} {} = [''FJORD'', ''CHUNK''] \<and>
   final_score ''FJORD''
     [''TASTE'', ''PASTE'', ''WASTE'', ''BASTE'', ''LEAST'', ''BEAST'', ''YEAST'', ''TABLE'',
      ''SABLE'', ''GAVEL'', ''PIXEL'']
     [''FJORD'', ''CHUNK'', ''TASTE'', ''PASTE'', ''WASTE'', ''BASTE'', ''LEAST'', ''BEAST'',
      ''YEAST'', ''TABLE'', ''SABLE'', ''GAVEL'', ''PIXEL''] 2 {} {} =
     Inr (2254896038429065 / 281474976710656) \<and>
   final_score ''CHUNK''
     [''TASTE'', ''PASTE'', ''WASTE'', ''BASTE'', ''LEAST'', ''BEAST'', ''YEAST'', ''TABLE'',
      ''SABLE'', ''GAVEL'', ''PIXEL'']
     [''FJORD'', ''CHUNK'', ''TASTE'', ''PASTE'', ''WASTE'', ''BASTE'', ''LEAST'', ''BEAST'',
      ''YEAST'', ''TABLE'', ''SABLE'', ''GAVEL'', ''PIXEL''] 2 {} {} =
     Inr (2254896038429065 / 281474976710656) \<and>
   choose_best_word
     [''TASTE'', ''PASTE'', ''WASTE'', ''BASTE'', ''LEAST'', ''BEAST'', ''YEAST'', ''TABLE'',
      ''SABLE'', ''GAVEL'', ''PIXEL'']
     [''FJORD'', ''CHUNK'', ''TASTE'', ''PASTE'', ''WASTE'', ''BASTE'', ''LEAST'', ''BEAST'',
      ''YEAST'', ''TABLE'', ''SABLE'', ''GAVEL'', ''PIXEL''] 2 {} {} = Inr (Some ''CHUNK'')"
proof -
  define pw where "pw = [''TASTE'', ''PASTE'', ''WASTE'', ''BASTE'', ''LEAST'', ''BEAST'',
      ''YEAST'', ''TABLE'', ''SABLE'', ''GAVEL'', ''PIXEL'']"
  define aw where "aw = [''FJORD'', ''CHUNK'', ''TASTE'', ''PASTE'', ''WASTE'', ''BASTE'',
      ''LEAST'', ''BEAST'', ''YEAST'', ''TABLE'', ''SABLE'', ''GAVEL'', ''PIXEL'']"
  have es: "evaluation_set pw aw {} {} = [''FJORD'', ''CHUNK'']"
    unfolding pw_def aw_def by code_simp
  have pF: "calculate_partitions ''FJORD'' pw = Inr [(''BBBBB'', pw)]"
    unfolding pw_def by code_simp
  have pC: "calculate_partitions ''CHUNK'' pw = Inr [(''BBBBB'', pw)]"
    unfolding pw_def by code_simp
  have n: "''FJORD'' \<notin> set pw" "''CHUNK'' \<notin> set pw" "6 < length pw" "10 < length pw"
    unfolding pw_def by simp_all
  have len: "\<forall>w\<in>set pw. 5 \<le> length w" "\<forall>w\<in>set aw. 5 \<le> length w"
    unfolding pw_def aw_def by simp_all
  have u: "unexplored ''FJORD'' {} {} = 5" "unexplored ''CHUNK'' {} {} = 5"
    by code_simp+
  have x: "card (set ''FJORD'' \<inter> {}) = 0" "card (set ''CHUNK'' \<inter> {}) = 0"
    by simp_all
  have z: "max_remaining_of (map (\<lambda>p. length (snd p)) [(''BBBBB'', pw)]) = 11"
      "avg_remaining_of (map (\<lambda>p. length (snd p)) [(''BBBBB'', pw)]) = int_truediv 11 1"
    unfolding pw_def by (simp_all add: max_remaining_of_def avg_remaining_of_def eval_nat_numeral)
  have v: "fadd (fadd (fadd (float_of_nat 11) (fdiv (int_truediv 11 1) 1000)) (- (1 / 2)))
             (fadd (fmul (float_of_int (- int 5)) (1 / 2))
                (fmul (float_of_nat 0) (round_double (3 / 10)))) =
           2254896038429065 / 281474976710656"
    by (simp add: float_eval)
  have sF: "final_score ''FJORD'' pw aw 2 {} {} = Inr (2254896038429065 / 281474976710656)"
    by (simp only: final_score_non_answer [OF pF n(1) n(3)] u x z v)
  have sC: "final_score ''CHUNK'' pw aw 2 {} {} = Inr (2254896038429065 / 281474976710656)"
    by (simp only: final_score_non_answer [OF pC n(2) n(3)] u x z v)
  have ord: "\<not> ''FJORD'' \<le> ''CHUNK''" by code_simp
  have "evaluation_set pw aw {} {} \<noteq> []" by (simp add: es)
  from general_case_least [OF n(4) _ len this, of 2]
  obtain w s where w: "w \<in> set (evaluation_set pw aw {} {})"
    and r: "choose_best_word pw aw 2 {} {} = Inr (Some w)"
    and s: "final_score w pw aw 2 {} {} = Inr s"
    and least: "\<forall>v\<in>set (evaluation_set pw aw {} {}). \<exists>s'.
        final_score v pw aw 2 {} {} = Inr s' \<and> (s < s' \<or> (s = s' \<and> w \<le> v))"
    by auto
  define q :: rat where "q = 2254896038429065 / 281474976710656"
  have qF: "final_score ''FJORD'' pw aw 2 {} {} = Inr q" unfolding q_def by (rule sF)
  have qC: "final_score ''CHUNK'' pw aw 2 {} {} = Inr q" unfolding q_def by (rule sC)
  have "''CHUNK'' \<in> set (evaluation_set pw aw {} {})" by (simp add: es)
  with least obtain s' where "final_score ''CHUNK'' pw aw 2 {} {} = Inr s'"
      and "s < s' \<or> (s = s' \<and> w \<le> ''CHUNK'')"
    by blast
  with qC have c: "s < q \<or> (s = q \<and> w \<le> ''CHUNK'')" by simp
  have "w \<noteq> ''FJORD''"
  proof
    assume "w = ''FJORD''"
    with s qF have "s = q" by simp
    with c \<open>w = ''FJORD''\<close> ord show False by simp
  qed
  with w have "w = ''CHUNK''" by (simp add: es)
  with r have "choose_best_word pw aw 2 {} {} = Inr (Some ''CHUNK'')" by simp
  with es sF sC show ?thesis unfolding pw_def aw_def by (intro conjI)
qed

text \<open>
  C4, amended. In the general case (more than 10 candidates, a turn other than 1, a
  non-empty evaluation set, words of at least five letters) \<^verbatim>\<open>choose_best_word\<close>
  returns a word of the evaluation set whose score, the double that the scoring loop
  computes, is least, and among the words of equal score the one that is least in the
  order of strings.
\<close>

theorem general_case_tie_break:
  assumes "10 < length possible_words" and "turn \<noteq> 1"
    and "\<forall>w\<in>set possible_words. 5 \<le> length w"
    and "\<forall>w\<in>set all_words. 5 \<le> length w"
    and "evaluation_set possible_words all_words known_letters excluded_letters \<noteq> []"
  shows "\<exists>w\<in>set (evaluation_set possible_words all_words known_letters excluded_letters). \<exists>s.
     choose_best_word possible_words all_words turn known_letters excluded_letters =
       Inr (Some w) \<and>
     final_score w possible_words all_words turn known_letters excluded_letters = Inr s \<and>
     (\<forall>v\<in>set (evaluation_set possible_words all_words known_letters excluded_letters). \<exists>s'.
        final_score v possible_words all_words turn known_letters excluded_letters = Inr s' \<and>
        (s < s' \<or> (s = s' \<and> w \<le> v)))"
  using assms by (rule general_case_least)

theorem general_case_tie_break_witness:
  "choose_best_word
     [''SCENE'', ''ASSET'', ''EMPTY'', ''STYLE'', ''UNDER'', ''SHALL'', ''SINCE'', ''ANGLE'',
      ''STAGE'', ''LEASE'', ''SHOCK'']
     [''ARRAY'', ''BREAD'', ''SCENE'', ''ASSET'', ''EMPTY'', ''STYLE'', ''UNDER'', ''SHALL'',
      ''SINCE'', ''ANGLE'', ''STAGE'', ''LEASE'', ''SHOCK''] 2 {} {} = Inr (Some ''BREAD'') \<and>
   final_score ''BREAD''
     [''SCENE'', ''ASSET'', ''EMPTY'', ''STYLE'', ''UNDER'', ''SHALL'', ''SINCE'', ''ANGLE'',
      ''STAGE'', ''LEASE'', ''SHOCK'']
     [''ARRAY'', ''BREAD'', ''SCENE'', ''ASSET'', ''EMPTY'', ''STYLE'', ''UNDER'', ''SHALL'',
      ''SINCE'', ''ANGLE'', ''STAGE'', ''LEASE'', ''SHOCK''] 2 {} {} =
     Inr (1127964056671835 / 1125899906842624) \<and>
   final_score ''ARRAY''
     [''SCENE'', ''ASSET'', ''EMPTY'', ''STYLE'', ''UNDER'', ''SHALL'', ''SINCE'', ''ANGLE'',
      ''STAGE'', ''LEASE'', ''SHOCK'']
     [''ARRAY'', ''BREAD'', ''SCENE'', ''ASSET'', ''EMPTY'', ''STYLE'', ''UNDER'', ''SHALL'',
      ''SINCE'', ''ANGLE'', ''STAGE'', ''LEASE'', ''SHOCK''] 2 {} {} =
     Inr (2255928113343671 / 2251799813685248) \<and>
   choose_best_word
     [''TASTE'', ''PASTE'', ''WASTE'', ''BASTE'', ''LEAST'', ''BEAST'', ''YEAST'', ''TABLE'',
      ''SABLE'', ''GAVEL'', ''PIXEL'']
     [''CHUNK'', ''FJORD'', ''TASTE'', ''PASTE'', ''WASTE'', ''BASTE'', ''LEAST'', ''BEAST'',
      ''YEAST'', ''TABLE'', ''SABLE'', ''GAVEL'', ''PIXEL''] 3 {} {} = Inr (Some ''CHUNK'')"
proof -
  define pw where "pw = [''SCENE'', ''ASSET'', ''EMPTY'', ''STYLE'', ''UNDER'', ''SHALL'',
      ''SINCE'', ''ANGLE'', ''STAGE'', ''LEASE'', ''SHOCK'']"
  define aw where "aw = [''ARRAY'', ''BREAD'', ''SCENE'', ''ASSET'', ''EMPTY'', ''STYLE'',
      ''UNDER'', ''SHALL'', ''SINCE'', ''ANGLE'', ''STAGE'', ''LEASE'', ''SHOCK'']"
  have es: "evaluation_set pw aw {} {} = [''BREAD'', ''ARRAY'']"
    unfolding pw_def aw_def by code_simp
  have pA: "calculate_partitions ''ARRAY'' pw =
      Inr [(''BBBBB'', [''SCENE'', ''SINCE'', ''SHOCK'']), (''GBBBB'', [''ASSET'', ''ANGLE'']),
           (''BBBBG'', [''EMPTY'']), (''BBBBY'', [''STYLE'']), (''BYBBB'', [''UNDER'']),
           (''YBBBB'', [''SHALL'', ''STAGE'', ''LEASE''])]"
    unfolding pw_def by code_simp
  have pB: "calculate_partitions ''BREAD'' pw =
      Inr [(''BBGBB'', [''SCENE'']), (''BBYYB'', [''ASSET'', ''ANGLE'', ''STAGE'', ''LEASE'']),
           (''BBYBB'', [''EMPTY'', ''STYLE'', ''SINCE'']), (''BYYBY'', [''UNDER'']),
           (''BBBYB'', [''SHALL'']), (''BBBBB'', [''SHOCK''])]"
    unfolding pw_def by code_simp
  have n: "''ARRAY'' \<notin> set pw" "''BREAD'' \<notin> set pw" "6 < length pw" "10 < length pw"
    unfolding pw_def by simp_all
  have len: "\<forall>w\<in>set pw. 5 \<le> length w" "\<forall>w\<in>set aw. 5 \<le> length w"
    unfolding pw_def aw_def by simp_all
  have t: "(2::int) \<noteq> 1" by simp
  have u: "unexplored ''ARRAY'' {} {} = 3" "unexplored ''BREAD'' {} {} = 5"
    by code_simp+
  have x: "card (set ''ARRAY'' \<inter> {}) = 0" "card (set ''BREAD'' \<inter> {}) = 0"
    by simp_all
  have zA: "max_remaining_of (map (\<lambda>p. length (snd p))
        [(''BBBBB'', [''SCENE'', ''SINCE'', ''SHOCK'']), (''GBBBB'', [''ASSET'', ''ANGLE'']),
         (''BBBBG'', [''EMPTY'']), (''BBBBY'', [''STYLE'']), (''BYBBB'', [''UNDER'']),
         (''YBBBB'', [''SHALL'', ''STAGE'', ''LEASE''])]) = 3"
      "avg_remaining_of (map (\<lambda>p. length (snd p))
        [(''BBBBB'', [''SCENE'', ''SINCE'', ''SHOCK'']), (''GBBBB'', [''ASSET'', ''ANGLE'']),
         (''BBBBG'', [''EMPTY'']), (''BBBBY'', [''STYLE'']), (''BYBBB'', [''UNDER'']),
         (''YBBBB'', [''SHALL'', ''STAGE'', ''LEASE''])]) = int_truediv 11 6"
    by (simp_all add: max_remaining_of_def avg_remaining_of_def eval_nat_numeral)
  have zB: "max_remaining_of (map (\<lambda>p. length (snd p))
        [(''BBGBB'', [''SCENE'']), (''BBYYB'', [''ASSET'', ''ANGLE'', ''STAGE'', ''LEASE'']),
         (''BBYBB'', [''EMPTY'', ''STYLE'', ''SINCE'']), (''BYYBY'', [''UNDER'']),
         (''BBBYB'', [''SHALL'']), (''BBBBB'', [''SHOCK''])]) = 4"
      "avg_remaining_of (map (\<lambda>p. length (snd p))
        [(''BBGBB'', [''SCENE'']), (''BBYYB'', [''ASSET'', ''ANGLE'', ''STAGE'', ''LEASE'']),
         (''BBYBB'', [''EMPTY'', ''STYLE'', ''SINCE'']), (''BYYBY'', [''UNDER'']),
         (''BBBYB'', [''SHALL'']), (''BBBBB'', [''SHOCK''])]) = int_truediv 11 6"
    by (simp_all add: max_remaining_of_def avg_remaining_of_def eval_nat_numeral)
  have vA: "fadd (fadd (fadd (float_of_nat 3) (fdiv (int_truediv 11 6) 1000)) (- (1 / 2)))
             (fadd (fmul (float_of_int (- int 3)) (1 / 2))
                (fmul (float_of_nat 0) (round_double (3 / 10)))) =
           2255928113343671 / 2251799813685248"
    by (simp add: float_eval)
  have vB: "fadd (fadd (fadd (float_of_nat 4) (fdiv (int_truediv 11 6) 1000)) (- (1 / 2)))
             (fadd (fmul (float_of_int (- int 5)) (1 / 2))
                (fmul (float_of_nat 0) (round_double (3 / 10)))) =
           1127964056671835 / 1125899906842624"
    by (simp add: float_eval)
  have sA: "final_score ''ARRAY'' pw aw 2 {} {} = Inr (2255928113343671 / 2251799813685248)"
    by (simp only: final_score_non_answer [OF pA n(1) n(3)] u x zA vA)
  have sB: "final_score ''BREAD'' pw aw 2 {} {} = Inr (1127964056671835 / 1125899906842624)"
    by (simp only: final_score_non_answer [OF pB n(2) n(3)] u x zB vB)
  have ne: "evaluation_set pw aw {} {} \<noteq> []" by (simp add: es)
  from general_case_tie_break [OF n(4) t len ne]
  obtain w s where w: "w \<in> set (evaluation_set pw aw {} {})"
    and r: "choose_best_word pw aw 2 {} {} = Inr (Some w)"
    and s: "final_score w pw aw 2 {} {} = Inr s"
    and least: "\<forall>v\<in>set (evaluation_set pw aw {} {}). \<exists>s'.
        final_score v pw aw 2 {} {} = Inr s' \<and> (s < s' \<or> (s = s' \<and> w \<le> v))"
    by auto
  have "''BREAD'' \<in> set (evaluation_set pw aw {} {})" by (simp add: es)
  with least obtain s' where "final_score ''BREAD'' pw aw 2 {} {} = Inr s'"
      and "s < s' \<or> (s = s' \<and> w \<le> ''BREAD'')"
    by blast
  with sB have c: "s \<le> 1127964056671835 / 1125899906842624" by auto
  have "w \<noteq> ''ARRAY''"
  proof
    assume "w = ''ARRAY''"
    with s sA have "s = 2255928113343671 / 2251799813685248" by simp
    with c show False by simp
  qed
  with w have "w = ''BREAD''" by (simp add: es)
  with r have first: "choose_best_word pw aw 2 {} {} = Inr (Some ''BREAD'')" by simp
  define pw' where "pw' = [''TASTE'', ''PASTE'', ''WASTE'', ''BASTE'', ''LEAST'', ''BEAST'',
      ''YEAST'', ''TABLE'', ''SABLE'', ''GAVEL'', ''PIXEL'']"
  define aw' where "aw' = [''CHUNK'', ''FJORD'', ''TASTE'', ''PASTE'', ''WASTE'', ''BASTE'',
      ''LEAST'', ''BEAST'', ''YEAST'', ''TABLE'', ''SABLE'', ''GAVEL'', ''PIXEL'']"
  have es': "evaluation_set pw' aw' {} {} = [''FJORD'', ''CHUNK'']"
    unfolding pw'_def aw'_def by code_simp
  have pF: "calculate_partitions ''FJORD'' pw' = Inr [(''BBBBB'', pw')]"
    unfolding pw'_def by code_simp
  have pC: "calculate_partitions ''CHUNK'' pw' = Inr [(''BBBBB'', pw')]"
    unfolding pw'_def by code_simp
  have n': "''FJORD'' \<notin> set pw'" "''CHUNK'' \<notin> set pw'" "6 < length pw'" "10 < length pw'"
    unfolding pw'_def by simp_all
  have len': "\<forall>w\<in>set pw'. 5 \<le> length w" "\<forall>w\<in>set aw'. 5 \<le> length w"
    unfolding pw'_def aw'_def by simp_all
  have t': "(3::int) \<noteq> 1" by simp
  have u': "unexplored ''FJORD'' {} {} = 5" "unexplored ''CHUNK'' {} {} = 5"
    by code_simp+
  have x': "card (set ''FJORD'' \<inter> {}) = 0" "card (set ''CHUNK'' \<inter> {}) = 0"
    by simp_all
  have eq: "final_score ''FJORD'' pw' aw' 3 {} {} = final_score ''CHUNK'' pw' aw' 3 {} {}"
    by (simp only: final_score_non_answer [OF pF n'(1) n'(3)]
        final_score_non_answer [OF pC n'(2) n'(3)] u' x')
  have ord: "\<not> ''FJORD'' \<le> ''CHUNK''" by code_simp
  have ne': "evaluation_set pw' aw' {} {} \<noteq> []" by (simp add: es')
  from general_case_tie_break [OF n'(4) t' len' ne']
  obtain w' q where w': "w' \<in> set (evaluation_set pw' aw' {} {})"
    and r': "choose_best_word pw' aw' 3 {} {} = Inr (Some w')"
    and q: "final_score w' pw' aw' 3 {} {} = Inr q"
    and least': "\<forall>v\<in>set (evaluation_set pw' aw' {} {}). \<exists>s'.
        final_score v pw' aw' 3 {} {} = Inr s' \<and> (q < s' \<or> (q = s' \<and> w' \<le> v))"
    by auto
  have "''CHUNK'' \<in> set (evaluation_set pw' aw' {} {})" by (simp add: es')
  with least' obtain q' where q': "final_score ''CHUNK'' pw' aw' 3 {} {} = Inr q'"
      and c': "q < q' \<or> (q = q' \<and> w' \<le> ''CHUNK'')"
    by blast
  have "w' \<noteq> ''FJORD''"
  proof
    assume f: "w' = ''FJORD''"
    with q eq q' have "q = q'" by simp
    with c' f ord show False by simp
  qed
  with w' have "w' = ''CHUNK''" by (simp add: es')
  with r' have second: "choose_best_word pw' aw' 3 {} {} = Inr (Some ''CHUNK'')" by simp
  from first sB sA second show ?thesis unfolding pw_def aw_def pw'_def aw'_def by (intro conjI)
qed

text \<open>
  C1 as stated fails twice. At turn 1 without \<^verbatim>\<open>COURT\<close> in the dictionary the
  result is \<^verbatim>\<open>ADIEU\<close>, which need not be in the dictionary or among the candidates.
  With 11 candidates that are the whole dictionary (the state after the guess
  \<^verbatim>\<open>ADIEU\<close> and the feedback \<^verbatim>\<open>BBBBB\<close>) the evaluation set is empty and
  \<^verbatim>\<open>candidates[0]\<close> raises \<^verbatim>\<open>IndexError\<close>.
\<close>

theorem selection_not_total_counterexample:
  "choose_best_word [''AUDIO'', ''AROSE''] [''AUDIO'', ''AROSE''] 1 {} {} = Inr (Some ''ADIEU'') \<and>
   ''ADIEU'' \<notin> set [''AUDIO'', ''AROSE''] \<and>
   choose_best_word
     [''BOOTH'', ''MOTHS'', ''FROST'', ''WORTH'', ''NORTH'', ''COLTS'', ''GHOST'', ''FORTY'',
      ''PORCH'', ''TORCH'', ''MONTH'']
     [''BOOTH'', ''MOTHS'', ''FROST'', ''WORTH'', ''NORTH'', ''COLTS'', ''GHOST'', ''FORTY'',
      ''PORCH'', ''TORCH'', ''MONTH''] 2 {} (set ''ADIEU'') = Inl IndexError"
  by code_simp

text \<open>
  C1, amended. For a non-empty candidate list, with all words of at least five
  letters and, when more than 10 candidates remain after turn 1, a non-empty
  evaluation set, \<^verbatim>\<open>choose_best_word\<close> returns a word and raises nothing. The word
  is in the dictionary or among the candidates, or it is \<^verbatim>\<open>ADIEU\<close> at turn 1. With
  2 to 10 candidates and an empty pool of the distinguishing search it is the first
  candidate.
\<close>

theorem choose_best_word_total:
  assumes ne: "possible_words \<noteq> []"
    and wp: "\<forall>w\<in>set possible_words. 5 \<le> length w"
    and wa: "\<forall>w\<in>set all_words. 5 \<le> length w"
    and pool: "10 < length possible_words \<longrightarrow> turn \<noteq> 1 \<longrightarrow>
       evaluation_set possible_words all_words known_letters excluded_letters \<noteq> []"
  shows "\<exists>w. choose_best_word possible_words all_words turn known_letters excluded_letters =
         Inr (Some w) \<and>
       (w \<in> set all_words \<or> w \<in> set possible_words \<or> (turn = 1 \<and> w = ''ADIEU'')) \<and>
       (turn \<noteq> 1 \<longrightarrow> 1 < length possible_words \<longrightarrow> length possible_words \<le> 10 \<longrightarrow>
          evaluation_candidates possible_words all_words = [] \<longrightarrow> w = possible_words ! 0)"
proof -
  consider (one) "length possible_words = 1"
    | (first_turn) "length possible_words \<noteq> 1" "turn = 1"
    | (small) "1 < length possible_words" "length possible_words \<le> 10" "turn \<noteq> 1"
    | (general) "10 < length possible_words" "turn \<noteq> 1"
    using ne by (cases possible_words) force+
  then show ?thesis
  proof cases
    case one
    then have "choose_best_word possible_words all_words turn known_letters excluded_letters =
        Inr (Some (possible_words ! 0))"
      by (simp add: choose_best_word_def)
    moreover from ne have "possible_words ! 0 \<in> set possible_words"
      by (cases possible_words) simp_all
    ultimately show ?thesis using one by simp
  next
    case first_turn
    then have "choose_best_word possible_words all_words turn known_letters excluded_letters =
        Inr (Some (if ''COURT'' \<in> set all_words then ''COURT'' else ''ADIEU''))"
      by (simp add: choose_best_word_def proven_starters_def)
    with first_turn(2) show ?thesis by simp
  next
    case small
    have ch: "choose_best_word possible_words all_words turn known_letters excluded_letters =
        find_best_distinguishing_word possible_words all_words known_letters excluded_letters"
      using small by (simp add: choose_best_word_def)
    from ne have first: "possible_words ! 0 \<in> set possible_words"
      by (cases possible_words) simp_all
    from find_best_distinguishing_word_result [OF small(1) wp wa, of known_letters excluded_letters]
    show ?thesis
    proof
      assume "evaluation_candidates possible_words all_words = [] \<and>
        find_best_distinguishing_word possible_words all_words known_letters excluded_letters =
          Inr (Some (possible_words ! 0))"
      with ch first show ?thesis by simp
    next
      assume "\<exists>i<length (evaluation_candidates possible_words all_words).
        find_best_distinguishing_word possible_words all_words known_letters excluded_letters =
          Inr (Some (evaluation_candidates possible_words all_words ! i)) \<and>
        (\<forall>j<length (evaluation_candidates possible_words all_words).
           projr (distinguishing_score (evaluation_candidates possible_words all_words ! i)
                    possible_words known_letters excluded_letters)
           \<le> projr (distinguishing_score (evaluation_candidates possible_words all_words ! j)
                    possible_words known_letters excluded_letters)) \<and>
        (\<forall>j<i.
           projr (distinguishing_score (evaluation_candidates possible_words all_words ! i)
                    possible_words known_letters excluded_letters)
           < projr (distinguishing_score (evaluation_candidates possible_words all_words ! j)
                    possible_words known_letters excluded_letters))"
      then obtain i where i: "i < length (evaluation_candidates possible_words all_words)"
        and r: "find_best_distinguishing_word possible_words all_words known_letters
          excluded_letters = Inr (Some (evaluation_candidates possible_words all_words ! i))"
        by blast
      from i have "evaluation_candidates possible_words all_words ! i \<in>
          set (evaluation_candidates possible_words all_words)" by simp
      with evaluation_candidates_subset [of possible_words all_words]
      have "evaluation_candidates possible_words all_words ! i \<in> set all_words \<or>
          evaluation_candidates possible_words all_words ! i \<in> set possible_words" by blast
      moreover from i have "evaluation_candidates possible_words all_words \<noteq> []" by auto
      ultimately show ?thesis using ch r by auto
    qed
  next
    case general
    from pool general have "evaluation_set possible_words all_words known_letters
        excluded_letters \<noteq> []" by blast
    from general_case_least [OF general wp wa this]
    have "\<exists>w\<in>set (evaluation_set possible_words all_words known_letters excluded_letters).
        choose_best_word possible_words all_words turn known_letters excluded_letters =
          Inr (Some w)"
      by (elim bexE exE conjE) (rule bexI)
    then obtain w where
      "w \<in> set (evaluation_set possible_words all_words known_letters excluded_letters)"
      and "choose_best_word possible_words all_words turn known_letters excluded_letters =
        Inr (Some w)"
      by blast
    moreover from this(1) evaluation_set_subset [of possible_words all_words known_letters
        excluded_letters]
    have "w \<in> set all_words" by blast
    ultimately show ?thesis using general(1) by simp
  qed
qed

theorem choose_best_word_total_witness:
  "(\<exists>w. choose_best_word
         [''TASTE'', ''PASTE'', ''WASTE'', ''BASTE'', ''LEAST'', ''BEAST'', ''YEAST'', ''TABLE'',
          ''SABLE'', ''GAVEL'', ''PIXEL'', ''MISTY'']
         [''WHOMP'', ''FJORD'', ''TASTE'', ''PASTE'', ''WASTE'', ''BASTE'', ''LEAST'', ''BEAST'',
          ''YEAST'', ''TABLE'', ''SABLE'', ''GAVEL'', ''PIXEL'', ''MISTY''] 4 (set ''AE'') (set ''R'') =
         Inr (Some w) \<and>
       (w \<in> set [''WHOMP'', ''FJORD'', ''TASTE'', ''PASTE'', ''WASTE'', ''BASTE'', ''LEAST'',
                  ''BEAST'', ''YEAST'', ''TABLE'', ''SABLE'', ''GAVEL'', ''PIXEL'', ''MISTY''] \<or>
        w \<in> set [''TASTE'', ''PASTE'', ''WASTE'', ''BASTE'', ''LEAST'', ''BEAST'', ''YEAST'',
                  ''TABLE'', ''SABLE'', ''GAVEL'', ''PIXEL'', ''MISTY''] \<or>
        ((4::int) = 1 \<and> w = ''ADIEU'')) \<and>
       ((4::int) \<noteq> 1 \<longrightarrow>
          1 < length [''TASTE'', ''PASTE'', ''WASTE'', ''BASTE'', ''LEAST'', ''BEAST'', ''YEAST'',
                      ''TABLE'', ''SABLE'', ''GAVEL'', ''PIXEL'', ''MISTY''] \<longrightarrow>
          length [''TASTE'', ''PASTE'', ''WASTE'', ''BASTE'', ''LEAST'', ''BEAST'', ''YEAST'',
                  ''TABLE'', ''SABLE'', ''GAVEL'', ''PIXEL'', ''MISTY''] \<le> 10 \<longrightarrow>
          evaluation_candidates
            [''TASTE'', ''PASTE'', ''WASTE'', ''BASTE'', ''LEAST'', ''BEAST'', ''YEAST'',
             ''TABLE'', ''SABLE'', ''GAVEL'', ''PIXEL'', ''MISTY'']
            [''WHOMP'', ''FJORD'', ''TASTE'', ''PASTE'', ''WASTE'', ''BASTE'', ''LEAST'', ''BEAST'',
             ''YEAST'', ''TABLE'', ''SABLE'', ''GAVEL'', ''PIXEL'', ''MISTY''] = [] \<longrightarrow>
          w = [''TASTE'', ''PASTE'', ''WASTE'', ''BASTE'', ''LEAST'', ''BEAST'', ''YEAST'',
               ''TABLE'', ''SABLE'', ''GAVEL'', ''PIXEL'', ''MISTY''] ! 0)) \<and>
   choose_best_word [''BOOTH'', ''MOTHS'', ''FROST'', ''WORTH'']
     [''BOOTH'', ''MOTHS'', ''FROST'', ''WORTH''] 2 {} {} = Inr (Some ''BOOTH'')"
  (is "?general \<and> ?fallback")
proof -
  have h1: "[''TASTE'', ''PASTE'', ''WASTE'', ''BASTE'', ''LEAST'', ''BEAST'', ''YEAST'',
      ''TABLE'', ''SABLE'', ''GAVEL'', ''PIXEL'', ''MISTY''] \<noteq> []" by simp
  have h2: "\<forall>w\<in>set [''TASTE'', ''PASTE'', ''WASTE'', ''BASTE'', ''LEAST'', ''BEAST'',
      ''YEAST'', ''TABLE'', ''SABLE'', ''GAVEL'', ''PIXEL'', ''MISTY'']. 5 \<le> length w" by simp
  have h3: "\<forall>w\<in>set [''WHOMP'', ''FJORD'', ''TASTE'', ''PASTE'', ''WASTE'', ''BASTE'',
      ''LEAST'', ''BEAST'', ''YEAST'', ''TABLE'', ''SABLE'', ''GAVEL'', ''PIXEL'', ''MISTY''].
      5 \<le> length w" by simp
  have "evaluation_set
       [''TASTE'', ''PASTE'', ''WASTE'', ''BASTE'', ''LEAST'', ''BEAST'', ''YEAST'', ''TABLE'',
        ''SABLE'', ''GAVEL'', ''PIXEL'', ''MISTY'']
       [''WHOMP'', ''FJORD'', ''TASTE'', ''PASTE'', ''WASTE'', ''BASTE'', ''LEAST'', ''BEAST'',
        ''YEAST'', ''TABLE'', ''SABLE'', ''GAVEL'', ''PIXEL'', ''MISTY''] (set ''AE'') (set ''R'')
       \<noteq> []"
    by code_simp
  then have h4: "10 < length [''TASTE'', ''PASTE'', ''WASTE'', ''BASTE'', ''LEAST'', ''BEAST'',
        ''YEAST'', ''TABLE'', ''SABLE'', ''GAVEL'', ''PIXEL'', ''MISTY''] \<longrightarrow> (4::int) \<noteq> 1 \<longrightarrow>
     evaluation_set
       [''TASTE'', ''PASTE'', ''WASTE'', ''BASTE'', ''LEAST'', ''BEAST'', ''YEAST'', ''TABLE'',
        ''SABLE'', ''GAVEL'', ''PIXEL'', ''MISTY'']
       [''WHOMP'', ''FJORD'', ''TASTE'', ''PASTE'', ''WASTE'', ''BASTE'', ''LEAST'', ''BEAST'',
        ''YEAST'', ''TABLE'', ''SABLE'', ''GAVEL'', ''PIXEL'', ''MISTY''] (set ''AE'') (set ''R'')
       \<noteq> []"
    by blast
  have general: ?general by (rule choose_best_word_total [OF h1 h2 h3 h4])

  have g1: "[''BOOTH'', ''MOTHS'', ''FROST'', ''WORTH''] \<noteq> []" by simp
  have g2: "\<forall>w\<in>set [''BOOTH'', ''MOTHS'', ''FROST'', ''WORTH'']. 5 \<le> length w" by simp
  have g4: "10 < length [''BOOTH'', ''MOTHS'', ''FROST'', ''WORTH''] \<longrightarrow> (2::int) \<noteq> 1 \<longrightarrow>
     evaluation_set [''BOOTH'', ''MOTHS'', ''FROST'', ''WORTH'']
       [''BOOTH'', ''MOTHS'', ''FROST'', ''WORTH''] {} {} \<noteq> []"
    by simp
  have e: "evaluation_candidates [''BOOTH'', ''MOTHS'', ''FROST'', ''WORTH'']
       [''BOOTH'', ''MOTHS'', ''FROST'', ''WORTH''] = []"
    by code_simp
  from choose_best_word_total [OF g1 g2 g2 g4] obtain w where
    r: "choose_best_word [''BOOTH'', ''MOTHS'', ''FROST'', ''WORTH'']
          [''BOOTH'', ''MOTHS'', ''FROST'', ''WORTH''] 2 {} {} = Inr (Some w)"
    and f: "(2::int) \<noteq> 1 \<longrightarrow> 1 < length [''BOOTH'', ''MOTHS'', ''FROST'', ''WORTH''] \<longrightarrow>
        length [''BOOTH'', ''MOTHS'', ''FROST'', ''WORTH''] \<le> 10 \<longrightarrow>
        evaluation_candidates [''BOOTH'', ''MOTHS'', ''FROST'', ''WORTH'']
          [''BOOTH'', ''MOTHS'', ''FROST'', ''WORTH''] = [] \<longrightarrow>
        w = [''BOOTH'', ''MOTHS'', ''FROST'', ''WORTH''] ! 0"
    by (elim exE conjE)
  from f e have "w = ''BOOTH''" by simp
  with r have fallback: ?fallback by simp
  from general fallback show ?thesis by (rule conjI)
qed
end
